theory Spec2Isabelle
  imports Complex_Main "HOL-Library.Sublist" "HOL-Library.Multiset"
begin

section \<open>Symbol normalizer (BinanceExchangeClient.normalizeContract, extractSymbol)\<close>

text \<open>
  JavaScript's \<^verbatim>\<open>String.prototype.replace\<close> with a string pattern replaces the first
  occurrence only; \<^verbatim>\<open>includes\<close> is substring search and \<^verbatim>\<open>endsWith\<close> is the suffix
  test. Symbols are ASCII, so a \<^typ>\<open>string\<close> stands for the JavaScript string.
\<close>

fun replace_first :: "string \<Rightarrow> string \<Rightarrow> string \<Rightarrow> string" where
  "replace_first pat rep [] = (if pat = [] then rep else [])"
| "replace_first pat rep (c # cs) =
     (if prefix pat (c # cs) then rep @ drop (length pat) (c # cs)
      else c # replace_first pat rep cs)"

fun includes_str :: "string \<Rightarrow> string \<Rightarrow> bool" where
  "includes_str [] pat = (pat = [])"
| "includes_str (c # cs) pat = (prefix pat (c # cs) \<or> includes_str cs pat)"

definition endsWith :: "string \<Rightarrow> string \<Rightarrow> bool" where
  "endsWith s pat = suffix pat s"

definition normalizeContract :: "string \<Rightarrow> string" where
  "normalizeContract symbol =
     (let normalized =
            replace_first '':USDT'' ''''
              (replace_first ''/'' '''' (replace_first ''_'' '''' symbol))
      in if \<not> endsWith normalized ''USDT'' \<and> \<not> includes_str normalized ''USDT''
         then normalized @ ''USDT'' else normalized)"

definition extractSymbol :: "string \<Rightarrow> string" where
  "extractSymbol contract = replace_first ''USDT'' '''' (normalizeContract contract)"

text \<open>
  The accepted input formats are built from a base asset: a ticker that contains none
  of the separator characters the normalizer strips.
\<close>

definition separator_free :: "string \<Rightarrow> bool" where
  "separator_free b =
     (CHR ''_'' \<notin> set b \<and> CHR ''/'' \<notin> set b \<and> CHR '':'' \<notin> set b)"

datatype input_format = Bare | SlashPair | SettlementPair | UnderscorePair | Canonical

fun render :: "input_format \<Rightarrow> string \<Rightarrow> string" where
  "render Bare b = b"
| "render SlashPair b = b @ ''/USDT''"
| "render SettlementPair b = b @ ''/USDT:USDT''"
| "render UnderscorePair b = b @ ''_USDT''"
| "render Canonical b = b @ ''USDT''"

section \<open>JavaScript numbers and errors\<close>

text \<open>
  A JavaScript number is a double. The model keeps the three non-finite values apart and
  reads every finite value as an exact real: products, quotients and \<^verbatim>\<open>Math.floor\<close> are
  computed without rounding error. Millisecond clock readings (\<^verbatim>\<open>Date.now()\<close>) and the
  exchange's server time are integers.
\<close>

datatype jsnum = NaN | PosInf | NegInf | Finite real



text \<open>
  Whatever a call throws. \<open>ApiError\<close> is the \<^verbatim>\<open>new Error("API request failed: " + msg)\<close>
  of the final attempt, \<open>Thrown\<close> an error raised by \<^verbatim>\<open>fetch\<close> (abort, timeout, network)
  or by a nested call, \<open>RetriesExhausted\<close> the throw after the retry loop.
\<close>

datatype error = ApiError string | Thrown string | RetriesExhausted nat

type_synonym 'a result = "error + 'a"

section \<open>The client's state\<close>

record OrderResponse =
  or_id :: string
  or_contract :: string
  or_size :: real
  or_price :: string
  or_status :: string
  or_create_time :: int
  or_fill_price :: string
  or_left :: real

record cache_entry =
  ce_contract :: string
  orderInfo :: OrderResponse
  timestamp :: int

text \<open>
  A JavaScript \<^verbatim>\<open>Map\<close> keeps its keys in insertion order: an association list with
  distinct keys. \<^verbatim>\<open>set\<close> on a present key replaces the value in place, on an absent key
  appends; \<^verbatim>\<open>delete\<close> removes the key; \<^verbatim>\<open>get\<close> looks it up.
\<close>

type_synonym order_cache = "(string \<times> cache_entry) list"

definition cache_get :: "order_cache \<Rightarrow> string \<Rightarrow> cache_entry option" where
  "cache_get m k = map_of m k"

definition cache_set :: "string \<Rightarrow> cache_entry \<Rightarrow> order_cache \<Rightarrow> order_cache" where
  "cache_set k v m =
     (if k \<in> set (map fst m) then map (\<lambda>(k', v'). if k' = k then (k', v) else (k', v')) m
      else m @ [(k, v)])"

definition cache_delete :: "string \<Rightarrow> order_cache \<Rightarrow> order_cache" where
  "cache_delete k m = filter (\<lambda>(k', v'). k' \<noteq> k) m"

text \<open>
  \<open>syncPromise\<close> holds the identifier of the promise stored in the field, or \<open>None\<close> for
  \<^verbatim>\<open>null\<close>.
\<close>

record client =
  timeOffset :: int
  lastSyncTime :: int
  syncPromise :: "nat option"
  orderCache :: order_cache

definition MAX_CACHE_SIZE :: nat where
  "MAX_CACHE_SIZE = 1000"

definition CACHE_TTL :: int where
  "CACHE_TTL = 24 * 60 * 60 * 1000"

definition defaultRecvWindow :: int where
  "defaultRecvWindow = 60000"

section \<open>Order state cache: cleanupCache\<close>

text \<open>
  \<open>now\<close> is the one \<^verbatim>\<open>Date.now()\<close> read at the start of the sweep. The two \<^verbatim>\<open>for\<close> loops
  over the keys to delete are folds of \<^verbatim>\<open>Map.delete\<close>; \<^verbatim>\<open>Array.prototype.sort\<close> with the
  comparator \<^verbatim>\<open>a.timestamp - b.timestamp\<close> is a stable sort by timestamp.
\<close>

definition expired :: "int \<Rightarrow> string \<times> cache_entry \<Rightarrow> bool" where
  "expired now e = (now - timestamp (snd e) > CACHE_TTL)"

definition cleanupCache :: "int \<Rightarrow> order_cache \<Rightarrow> order_cache" where
  "cleanupCache now cache =
     (let keysToDelete = map fst (filter (expired now) cache);
          cache1 = fold cache_delete keysToDelete cache
      in if length cache1 > MAX_CACHE_SIZE
         then let entries = sort_key (\<lambda>e. timestamp (snd e)) cache1;
                  toDelete = take (length entries - MAX_CACHE_SIZE) entries
              in fold cache_delete (map fst toDelete) cache1
         else cache1)"

section \<open>Clock synchronizer\<close>

text \<open>
  What one run of syncServerTime observes: the clock before the time query, the outcome
  of \<^verbatim>\<open>publicRequest('/fapi/v1/time')\<close> (the server time, or the error it throws), the
  clock when the response arrives and the clock read for \<open>lastSyncTime\<close>.
\<close>

record sync_env =
  se_t0 :: int
  se_response :: "int result"
  se_t1 :: int
  se_t2 :: int

definition syncServerTime :: "sync_env \<Rightarrow> client \<Rightarrow> unit result \<times> client" where
  "syncServerTime env c =
     (let t0 = se_t0 env in
      case se_response env of
        Inl err \<Rightarrow> (Inl err, c)
      | Inr serverTime \<Rightarrow>
          let t1 = se_t1 env;
              rtt = t1 - t0;
              estimatedServerTime = serverTime + rtt div 2;
              localTime = t1;
              rawOffset = estimatedServerTime - localTime
          in (Inr (), c\<lparr>timeOffset := rawOffset - 2000, lastSyncTime := se_t2 env\<rparr>))"

definition getServerTime :: "int \<Rightarrow> client \<Rightarrow> int" where
  "getServerTime now c = now + timeOffset c"

section \<open>Signed requests: handleSignedRequest\<close>

text \<open>
  The outcome of one \<^verbatim>\<open>fetch\<close>: a successful response with its parsed body, a response
  that is not ok with the code and message of its error body, or an exception (abort
  after the timeout, network failure, an unreadable error body).
\<close>

datatype 'r fetch_outcome = Ok 'r | NotOk int string | FetchThrows string

record 'r attempt_env =
  ae_now :: int
  ae_fetch :: "'r fetch_outcome"
  ae_sync :: sync_env

record 'p signed_data =
  sd_params :: 'p
  sd_timestamp :: int
  sd_recvWindow :: int

record 'p sent_request =
  sr_data :: "'p signed_data"
  sr_signature :: string

text \<open>
  \<open>sign\<close> stands for generateSignature, the HMAC-SHA256 of the serialized data under the
  account secret. \<open>env k\<close> is what attempt \<open>k\<close> observes. The function returns the result
  of the call, the client afterwards and every request it signed and sent, in order.
  An error thrown by the resynchronization is caught by the inner \<^verbatim>\<open>catch\<close>: the loop
  goes on to the next attempt with the offset it had.
\<close>

function handleSignedRequest_from ::
  "('p signed_data \<Rightarrow> string) \<Rightarrow> (nat \<Rightarrow> 'r attempt_env) \<Rightarrow> 'p \<Rightarrow> nat \<Rightarrow> nat \<Rightarrow>
   client \<Rightarrow> 'p sent_request list \<Rightarrow> 'r result \<times> client \<times> 'p sent_request list" where
  "handleSignedRequest_from sign env params retries attempt c sent =
     (if attempt \<le> retries then
        let timestamp = getServerTime (ae_now (env attempt)) c;
            data = \<lparr>sd_params = params, sd_timestamp = timestamp,
                    sd_recvWindow = defaultRecvWindow\<rparr>;
            signature = sign data;
            sent' = sent @ [\<lparr>sr_data = data, sr_signature = signature\<rparr>]
        in case ae_fetch (env attempt) of
             Ok r \<Rightarrow> (Inr r, c, sent')
           | NotOk code msg \<Rightarrow>
               if code = - 1021 \<and> attempt < retries then
                 handleSignedRequest_from sign env params retries (Suc attempt)
                   (snd (syncServerTime (ae_sync (env attempt)) c)) sent'
               else if attempt = retries then (Inl (ApiError msg), c, sent')
               else handleSignedRequest_from sign env params retries (Suc attempt) c sent'
           | FetchThrows e \<Rightarrow>
               if attempt = retries then (Inl (Thrown e), c, sent')
               else handleSignedRequest_from sign env params retries (Suc attempt) c sent'
      else (Inl (RetriesExhausted retries), c, sent))"
  by pat_completeness auto
termination
  by (relation "measure (\<lambda>(sign, env, params, retries, attempt, c, sent). Suc retries - attempt)")
     auto

definition handleSignedRequest ::
  "('p signed_data \<Rightarrow> string) \<Rightarrow> (nat \<Rightarrow> 'r attempt_env) \<Rightarrow> 'p \<Rightarrow> nat \<Rightarrow>
   client \<Rightarrow> 'r result \<times> client \<times> 'p sent_request list" where
  "handleSignedRequest sign env params retries c =
     handleSignedRequest_from sign env params retries 1 c []"

text \<open>
  What the loop is expected to do, attempt by attempt. \<open>after_attempt\<close> is the client a
  failed attempt \<open>k\<close> leaves behind: resynchronized when the answer was -1021 and another
  attempt follows, unchanged otherwise. \<open>client_at env retries c k\<close> is the client on
  entering attempt \<open>k\<close>, \<open>attempt_request\<close> the request an attempt builds from the clock it
  reads and the client it finds, and \<open>outcome_of\<close> what the call returns or throws when
  an attempt is the last one made.
\<close>

definition after_attempt :: "(nat \<Rightarrow> 'r attempt_env) \<Rightarrow> nat \<Rightarrow> nat \<Rightarrow> client \<Rightarrow> client" where
  "after_attempt env retries k cl =
     (case ae_fetch (env k) of
        NotOk code msg \<Rightarrow>
          if code = - 1021 \<and> k < retries then snd (syncServerTime (ae_sync (env k)) cl) else cl
      | _ \<Rightarrow> cl)"

fun client_at :: "(nat \<Rightarrow> 'r attempt_env) \<Rightarrow> nat \<Rightarrow> client \<Rightarrow> nat \<Rightarrow> client" where
  "client_at env retries c 0 = c"
| "client_at env retries c (Suc 0) = c"
| "client_at env retries c (Suc (Suc k)) =
     after_attempt env retries (Suc k) (client_at env retries c (Suc k))"

definition attempt_request ::
  "('p signed_data \<Rightarrow> string) \<Rightarrow> 'p \<Rightarrow> int \<Rightarrow> client \<Rightarrow> 'p sent_request" where
  "attempt_request sign params now cl =
     \<lparr>sr_data = \<lparr>sd_params = params, sd_timestamp = now + timeOffset cl, sd_recvWindow = 60000\<rparr>,
      sr_signature = sign \<lparr>sd_params = params, sd_timestamp = now + timeOffset cl,
                          sd_recvWindow = 60000\<rparr>\<rparr>"

fun outcome_of :: "'r fetch_outcome \<Rightarrow> 'r result" where
  "outcome_of (Ok r) = Inr r"
| "outcome_of (NotOk code msg) = Inl (ApiError msg)"
| "outcome_of (FetchThrows e) = Inl (Thrown e)"

definition run_ok ::
  "('p signed_data \<Rightarrow> string) \<Rightarrow> (nat \<Rightarrow> 'r attempt_env) \<Rightarrow> 'p \<Rightarrow> nat \<Rightarrow> client \<Rightarrow>
   'r result \<times> client \<times> 'p sent_request list \<Rightarrow> bool" where
  "run_ok sign env params retries c out =
     (let sent = snd (snd out); n = length sent
      in 0 < n \<and> n \<le> retries
         \<and> (\<forall>i<n. sent ! i = attempt_request sign params (ae_now (env (Suc i)))
                               (client_at env retries c (Suc i)))
         \<and> fst (snd out) = client_at env retries c n
         \<and> (\<forall>k. 0 < k \<and> k < n \<longrightarrow> (\<forall>r. ae_fetch (env k) \<noteq> Ok r))
         \<and> fst out = outcome_of (ae_fetch (env n))
         \<and> (n < retries \<longrightarrow> (\<exists>r. ae_fetch (env n) = Ok r)))"

section \<open>Concurrent callers of ensureTimeSynced\<close>

text \<open>
  JavaScript runs one task at a time and switches only at an \<^verbatim>\<open>await\<close>. A run of
  syncServerTime reads \<open>t0\<close> and issues its time query when it is called, and finishes
  when the response arrives; its promise is the index of the run in \<open>sys_syncs\<close>. A
  caller of ensureTimeSynced runs up to its first \<^verbatim>\<open>await\<close> when it is called and is
  resumed after the promise it awaits has settled. Every run in \<open>sys_syncs\<close> has issued
  one time query to the exchange.
\<close>

datatype promise_state = Pending | Fulfilled | Rejected error

datatype caller_state = NotCalled | AwaitingShared nat | AwaitingOwn nat | Returned | Raised error

record sync_run =
  run_t0 :: int
  run_state :: promise_state

record system =
  sys_client :: client
  sys_syncs :: "sync_run list"
  sys_callers :: "nat \<Rightarrow> caller_state"

datatype event =
    Call nat int int
  | Response nat "int result" int int
  | Resume nat

text \<open>
  \<open>Call i now t0\<close>: caller \<open>i\<close> enters ensureTimeSynced; \<open>now\<close> is the clock read for the
  interval test and \<open>t0\<close> the clock read by the syncServerTime it may start.
  \<open>Response p r t1 t2\<close>: the time query of run \<open>p\<close> completes with outcome \<open>r\<close>.
  \<open>Resume i\<close>: caller \<open>i\<close> continues after its \<^verbatim>\<open>await\<close>.
\<close>

fun settle :: "unit result \<Rightarrow> promise_state" where
  "settle (Inl e) = Rejected e"
| "settle (Inr u) = Fulfilled"

fun step :: "event \<Rightarrow> system \<Rightarrow> system" where
  "step (Call i now t0) s =
     (if sys_callers s i \<noteq> NotCalled then s
      else case syncPromise (sys_client s) of
             Some p \<Rightarrow> s\<lparr>sys_callers := (sys_callers s)(i := AwaitingShared p)\<rparr>
           | None \<Rightarrow>
               let timeSinceLastSync = now - lastSyncTime (sys_client s)
               in if timeSinceLastSync > 2 * 60 * 1000
                  then s\<lparr>sys_syncs := sys_syncs s @ [\<lparr>run_t0 = t0, run_state = Pending\<rparr>],
                         sys_callers := (sys_callers s)(i := AwaitingOwn (length (sys_syncs s)))\<rparr>
                  else s\<lparr>sys_callers := (sys_callers s)(i := Returned)\<rparr>)"
| "step (Response p r t1 t2) s =
     (if p < length (sys_syncs s) \<and> run_state (sys_syncs s ! p) = Pending
      then let env = \<lparr>se_t0 = run_t0 (sys_syncs s ! p), se_response = r, se_t1 = t1, se_t2 = t2\<rparr>;
               out = syncServerTime env (sys_client s)
           in s\<lparr>sys_client := snd out,
                sys_syncs := (sys_syncs s)[p := (sys_syncs s ! p)\<lparr>run_state := settle (fst out)\<rparr>]\<rparr>
      else s)"
| "step (Resume i) s =
     (case sys_callers s i of
        AwaitingShared p \<Rightarrow>
          (if p < length (sys_syncs s) then
             case run_state (sys_syncs s ! p) of
               Pending \<Rightarrow> s
             | Fulfilled \<Rightarrow>
                 s\<lparr>sys_client := (sys_client s)\<lparr>syncPromise := None\<rparr>,
                   sys_callers := (sys_callers s)(i := Returned)\<rparr>
             | Rejected e \<Rightarrow> s\<lparr>sys_callers := (sys_callers s)(i := Raised e)\<rparr>
           else s)
      | AwaitingOwn p \<Rightarrow>
          (if p < length (sys_syncs s) then
             case run_state (sys_syncs s ! p) of
               Pending \<Rightarrow> s
             | Fulfilled \<Rightarrow> s\<lparr>sys_callers := (sys_callers s)(i := Returned)\<rparr>
             | Rejected e \<Rightarrow> s\<lparr>sys_callers := (sys_callers s)(i := Raised e)\<rparr>
           else s)
      | _ \<Rightarrow> s)"

definition run_events :: "event list \<Rightarrow> system \<Rightarrow> system" where
  "run_events evs s = fold step evs s"

text \<open>The number of time queries sent to the exchange so far.\<close>

definition round_trips :: "system \<Rightarrow> nat" where
  "round_trips s = length (sys_syncs s)"

text \<open>
  The constructor stores the promise of the first synchronization in \<open>syncPromise\<close>; \<open>t0\<close>
  is the clock that run reads.
\<close>

definition constructed :: "int \<Rightarrow> system" where
  "constructed t0 =
     \<lparr>sys_client = \<lparr>timeOffset = 0, lastSyncTime = 0, syncPromise = Some 0, orderCache = []\<rparr>,
      sys_syncs = [\<lparr>run_t0 = t0, run_state = Pending\<rparr>],
      sys_callers = (\<lambda>i. NotCalled)\<rparr>"

fun is_call :: "event \<Rightarrow> bool" where
  "is_call (Call i now t0) = True"
| "is_call _ = False"

section \<open>Orders: getOpenOrders, getOrder, placeOrder\<close>

text \<open>
  An order as the exchange returns it. The quantities are the values \<^verbatim>\<open>parseFloat\<close> gives
  for \<^verbatim>\<open>origQty || '0'\<close> and \<^verbatim>\<open>executedQty || '0'\<close>; the identifier is
  \<^verbatim>\<open>orderId.toString()\<close>.
\<close>

record raw_order =
  ro_orderId :: string
  ro_symbol :: string
  ro_side :: string
  ro_origQty :: real
  ro_executedQty :: real
  ro_price :: string
  ro_avgPrice :: string
  ro_status :: string
  ro_time :: int
  ro_updateTime :: int

text \<open>\<^verbatim>\<open>s || d\<close> on strings: the empty string is falsy.\<close>

definition or_else :: "string \<Rightarrow> string \<Rightarrow> string" where
  "or_else s d = (if s = [] then d else s)"

definition toLowerCase :: "string \<Rightarrow> string" where
  "toLowerCase s =
     map (\<lambda>c. if 65 \<le> (of_char c :: nat) \<and> (of_char c :: nat) \<le> 90
               then char_of ((of_char c :: nat) + 32) else c) s"

definition signed_qty :: "raw_order \<Rightarrow> real" where
  "signed_qty r = (if ro_side r = ''BUY'' then 1 else - 1) * ro_origQty r"

definition open_order :: "raw_order \<Rightarrow> OrderResponse" where
  "open_order r =
     \<lparr>or_id = ro_orderId r, or_contract = ro_symbol r, or_size = signed_qty r,
      or_price = or_else (ro_price r) ''0'', or_status = ''open'',
      or_create_time = ro_time r, or_fill_price = or_else (ro_avgPrice r) ''0'',
      or_left = ro_origQty r - ro_executedQty r\<rparr>"

text \<open>
  The argument is the outcome of \<^verbatim>\<open>privateRequest('/fapi/v1/openOrders')\<close>; an error is
  logged and thrown again.
\<close>

definition getOpenOrders :: "raw_order list result \<Rightarrow> OrderResponse list result" where
  "getOpenOrders outcome =
     (case outcome of Inl e \<Rightarrow> Inl e | Inr orders \<Rightarrow> Inr (map open_order orders))"

definition query_status :: "string \<Rightarrow> string" where
  "query_status st =
     (if st = ''FILLED'' then ''finished''
      else if st = ''NEW'' then ''open''
      else if st = ''CANCELED'' then ''cancelled''
      else toLowerCase st)"

definition place_status :: "string \<Rightarrow> string" where
  "place_status st =
     (if st = ''FILLED'' then ''finished''
      else if st = ''NEW'' then ''open''
      else toLowerCase st)"

text \<open>
  What one call of getOrder observes: the outcome of the direct query (made only for a
  cached order), the clock, and the outcome of the open-orders request.
\<close>

record getOrder_env =
  ge_query :: "raw_order result"
  ge_now :: int
  ge_openOrders :: "raw_order list result"

definition assumed_finished :: "string \<Rightarrow> int \<Rightarrow> OrderResponse" where
  "assumed_finished orderId now =
     \<lparr>or_id = orderId, or_contract = ''UNKNOWN'', or_size = 0, or_price = ''0'',
      or_status = ''finished'', or_create_time = now, or_fill_price = ''0'', or_left = 0\<rparr>"

definition getOrder :: "getOrder_env \<Rightarrow> string \<Rightarrow> client \<Rightarrow> OrderResponse result \<times> client" where
  "getOrder env orderId c =
     (case cache_get (orderCache c) orderId of
        Some cached \<Rightarrow>
          (case ge_query env of
             Inr response \<Rightarrow>
               let orderResponse =
                     \<lparr>or_id = ro_orderId response, or_contract = ce_contract cached,
                      or_size = signed_qty response,
                      or_price = or_else (ro_price response) ''0'',
                      or_status = query_status (ro_status response),
                      or_create_time = ro_time response,
                      or_fill_price = or_else (ro_avgPrice response) ''0'',
                      or_left = ro_origQty response - ro_executedQty response\<rparr>
               in (Inr orderResponse,
                   c\<lparr>orderCache :=
                       cache_set orderId
                         \<lparr>ce_contract = ce_contract cached, orderInfo = orderResponse,
                          timestamp = ge_now env\<rparr> (orderCache c)\<rparr>)
           | Inl apiError \<Rightarrow> (Inr (orderInfo cached), c))
      | None \<Rightarrow>
          (case getOpenOrders (ge_openOrders env) of
             Inl e \<Rightarrow> (Inl e, c)
           | Inr openOrders \<Rightarrow>
               (case find (\<lambda>x. or_id x = orderId) openOrders of
                  Some order \<Rightarrow> (Inr order, c)
                | None \<Rightarrow> (Inr (assumed_finished orderId (ge_now env)), c))))"

section \<open>IEEE 754 double arithmetic\<close>

text \<open>
  The numbers of the precision normalizer are IEEE 754 binary64 values: NaN, the two
  infinities, the two zeros and the finite doubles other than zero, carried as the real
  number they denote. An arithmetic operation returns its exact result rounded to the
  nearest double, to the neighbour with the even significand on a tie.
\<close>

datatype sign = Positive | Negative

datatype double = QNaN | Infinity sign | Zero sign | Num real

text \<open>The integer nearest to \<open>z\<close>, the even one of the two on a tie.\<close>

definition round_half_even :: "real \<Rightarrow> int" where
  "round_half_even z =
     (let f = \<lfloor>z\<rfloor>; r = z - real_of_int f
      in if r < 1 / 2 then f else if r > 1 / 2 then f + 1 else if even f then f else f + 1)"

text \<open>
  The binary exponent of \<open>x\<close>, not below that of the smallest normal double,
  \<open>2 ^ - 1022\<close>; the distance between neighbouring doubles at that exponent, 52 binary
  places further down; and \<open>x\<close> rounded to a whole number of those distances. A real
  number is a double when rounding leaves it as it is and it is below \<open>2 ^ 1024\<close> in
  magnitude.
\<close>

definition exponent :: "real \<Rightarrow> int" where
  "exponent x = max \<lfloor>log 2 \<bar>x\<bar>\<rfloor> (- 1022)"

definition quantum :: "real \<Rightarrow> real" where
  "quantum x = 2 powr real_of_int (exponent x - 52)"

definition round64 :: "real \<Rightarrow> real" where
  "round64 x = real_of_int (round_half_even (x / quantum x)) * quantum x"


definition sign_of :: "real \<Rightarrow> sign" where
  "sign_of x = (if x < 0 then Negative else Positive)"

fun sign_bit :: "double \<Rightarrow> sign" where
  "sign_bit QNaN = Positive"
| "sign_bit (Infinity s) = s"
| "sign_bit (Zero s) = s"
| "sign_bit (Num x) = sign_of x"

definition sign_mult :: "sign \<Rightarrow> sign \<Rightarrow> sign" where
  "sign_mult s t = (if s = t then Positive else Negative)"

text \<open>
  The double an operation returns for the exact result \<open>x\<close>: an infinity when the
  rounded value reaches \<open>2 ^ 1024\<close>, a zero with the sign of \<open>x\<close> when it rounds to
  nothing.
\<close>

definition to_double :: "real \<Rightarrow> double" where
  "to_double x =
     (let y = round64 x
      in if 2 ^ 1024 \<le> \<bar>y\<bar> then Infinity (sign_of x)
         else if y = 0 then Zero (sign_of x)
         else Num y)"


fun js_div :: "double \<Rightarrow> double \<Rightarrow> double" where
  "js_div QNaN b = QNaN"
| "js_div a QNaN = QNaN"
| "js_div (Infinity s) (Infinity t) = QNaN"
| "js_div (Zero s) (Zero t) = QNaN"
| "js_div (Num x) (Num y) = to_double (x / y)"
| "js_div (Infinity s) b = Infinity (sign_mult s (sign_bit b))"
| "js_div a (Zero t) = Infinity (sign_mult (sign_bit a) t)"
| "js_div a b = Zero (sign_mult (sign_bit a) (sign_bit b))"






section \<open>Precision normalizer\<close>






section \<open>placeOrder and the cache\<close>

record OrderParams =
  op_contract :: string
  op_size :: real

text \<open>
  What one call of placeOrder observes once the quantity is fixed (the precision
  normalizer above): the outcome of the order request, the clock read for the cache
  entry and the clock read by the sweep.
\<close>

record placeOrder_env =
  pe_request :: "raw_order result"
  pe_now_entry :: int
  pe_now_sweep :: int

definition placeOrder :: "placeOrder_env \<Rightarrow> OrderParams \<Rightarrow> client \<Rightarrow> OrderResponse result \<times> client" where
  "placeOrder env params c =
     (case pe_request env of
        Inl e \<Rightarrow> (Inl e, c)
      | Inr response \<Rightarrow>
          let orderResponse =
                \<lparr>or_id = ro_orderId response, or_contract = op_contract params,
                 or_size = op_size params,
                 or_price = or_else (or_else (ro_avgPrice response) (ro_price response)) ''0'',
                 or_status = place_status (ro_status response),
                 or_create_time = ro_updateTime response,
                 or_fill_price = or_else (ro_avgPrice response) ''0'',
                 or_left = ro_origQty response - ro_executedQty response\<rparr>;
              cache1 = cache_set (or_id orderResponse)
                         \<lparr>ce_contract = op_contract params, orderInfo = orderResponse,
                          timestamp = pe_now_entry env\<rparr> (orderCache c)
          in (Inr orderResponse, c\<lparr>orderCache := cleanupCache (pe_now_sweep env) cache1\<rparr>))"

section \<open>parsePositionSize and isValidPosition\<close>





section \<open>Example scenarios\<close>

text \<open>
  Concrete inputs on which the theorems below are instantiated. A synchronization with
  an odd round-trip time of 101 ms, and a client that has never synchronized.
\<close>

definition sample_sync :: sync_env where
  "sample_sync = \<lparr>se_t0 = 1000, se_response = Inr 5000, se_t1 = 1101, se_t2 = 1102\<rparr>"

definition fresh_client :: client where
  "fresh_client = \<lparr>timeOffset = 0, lastSyncTime = 0, syncPromise = None, orderCache = []\<rparr>"

text \<open>
  A signed request whose first attempt is rejected for clock drift and whose second
  attempt succeeds: the client holds the offset 1100 ms, the rejection arrives after two
  seconds on a slow network, and the resynchronization finds the clocks level. In
  \<open>retry_env\<close> the second attempt times out instead and a third one succeeds.
\<close>

definition demo_sign :: "string signed_data \<Rightarrow> string" where
  "demo_sign d = ''hmac''"

definition drift_env :: "nat \<Rightarrow> string attempt_env" where
  "drift_env k =
     (if k = 1
      then \<lparr>ae_now = 10000,
            ae_fetch = NotOk (- 1021) ''Timestamp for this request is outside of the recvWindow.'',
            ae_sync = \<lparr>se_t0 = 12000, se_response = Inr 12300, se_t1 = 12600, se_t2 = 12600\<rparr>\<rparr>
      else \<lparr>ae_now = 13100, ae_fetch = Ok ''accepted'',
            ae_sync = \<lparr>se_t0 = 0, se_response = Inr 0, se_t1 = 0, se_t2 = 0\<rparr>\<rparr>)"

definition retry_env :: "nat \<Rightarrow> string attempt_env" where
  "retry_env k =
     (if k = 1
      then \<lparr>ae_now = 10000,
            ae_fetch = NotOk (- 1021) ''Timestamp for this request is outside of the recvWindow.'',
            ae_sync = \<lparr>se_t0 = 12000, se_response = Inr 12300, se_t1 = 12600, se_t2 = 12600\<rparr>\<rparr>
      else if k = 2
      then \<lparr>ae_now = 13100, ae_fetch = FetchThrows ''timeout'',
            ae_sync = \<lparr>se_t0 = 0, se_response = Inr 0, se_t1 = 0, se_t2 = 0\<rparr>\<rparr>
      else \<lparr>ae_now = 17000, ae_fetch = Ok ''accepted'',
            ae_sync = \<lparr>se_t0 = 0, se_response = Inr 0, se_t1 = 0, se_t2 = 0\<rparr>\<rparr>)"

definition drift_client :: client where
  "drift_client = \<lparr>timeOffset = 1100, lastSyncTime = 0, syncPromise = None, orderCache = []\<rparr>"

text \<open>
  A cache of \<open>n\<close> entries with distinct identifiers, entry \<open>i\<close> stamped at millisecond \<open>i\<close>.
\<close>

definition numbered_entry :: "nat \<Rightarrow> string \<times> cache_entry" where
  "numbered_entry i =
     (replicate (Suc i) CHR ''7'',
      \<lparr>ce_contract = ''BTCUSDT'',
       orderInfo = assumed_finished (replicate (Suc i) CHR ''7'') (int i),
       timestamp = int i\<rparr>)"

definition numbered_cache :: "nat \<Rightarrow> order_cache" where
  "numbered_cache n = map numbered_entry [0..<n]"

text \<open>
  A cache with one order stamped at millisecond 0, looked up one millisecond after its
  24 hours while the exchange cannot be reached; and a lookup of an identifier that is
  neither cached nor open.
\<close>

definition stale_order :: OrderResponse where
  "stale_order =
     \<lparr>or_id = ''42'', or_contract = ''BTC/USDT'', or_size = 1, or_price = ''100'',
      or_status = ''open'', or_create_time = 0, or_fill_price = ''0'', or_left = 1\<rparr>"

definition stale_entry :: cache_entry where
  "stale_entry = \<lparr>ce_contract = ''BTC/USDT'', orderInfo = stale_order, timestamp = 0\<rparr>"

definition stale_client :: client where
  "stale_client =
     \<lparr>timeOffset = 0, lastSyncTime = 0, syncPromise = None, orderCache = [(''42'', stale_entry)]\<rparr>"

definition stale_env :: getOrder_env where
  "stale_env =
     \<lparr>ge_query = Inl (Thrown ''timeout''), ge_now = 86400001, ge_openOrders = Inr []\<rparr>"

definition other_order :: raw_order where
  "other_order =
     \<lparr>ro_orderId = ''7'', ro_symbol = ''BTCUSDT'', ro_side = ''BUY'', ro_origQty = 1,
      ro_executedQty = 0, ro_price = ''100'', ro_avgPrice = '''', ro_status = ''NEW'',
      ro_time = 5, ro_updateTime = 5\<rparr>"

definition miss_env :: getOrder_env where
  "miss_env =
     \<lparr>ge_query = Inl (Thrown ''unused''), ge_now = 1000, ge_openOrders = Inr [other_order]\<rparr>"



text \<open>
  Caller 0 awaits the constructor's synchronization, which completes; more than two
  minutes later callers 1 and 2 enter ensureTimeSynced one after the other, before any
  further response.
\<close>

definition resync_race :: "event list" where
  "resync_race =
     [Call 0 1 1, Response 0 (Inr 1000) 2 2, Resume 0,
      Call 1 200000 200000, Call 2 200000 200000]"



section \<open>Properties of the symbol normalizer\<close>

subsection \<open>Facts about the string primitives\<close>

lemma replace_first_absent: "c \<notin> set s \<Longrightarrow> replace_first (c # p) rep s = s"
  by (induction s) auto

lemma replace_first_at:
  "c \<notin> set b \<Longrightarrow> replace_first (c # p) [] (b @ c # p @ t) = b @ t"
  by (induction b) auto

lemma includes_str_prefix: "prefix pat s \<Longrightarrow> includes_str s pat"
  by (cases s) auto

lemma includes_append: "includes_str (b @ pat @ t) pat"
  by (induction b) (auto intro: includes_str_prefix)

lemma includes_append_end: "includes_str (b @ pat) pat"
  using includes_append [of b pat "[]"] by simp

lemma endsWith_includes: "endsWith s pat \<Longrightarrow> includes_str s pat"
  by (auto simp: endsWith_def suffix_def includes_append_end)

lemma separator_free_append:
  "separator_free (b @ t) = (separator_free b \<and> separator_free t)"
  by (auto simp: separator_free_def)

lemma separator_free_USDT: "separator_free ''USDT''"
  by (simp add: separator_free_def)

subsection \<open>What the normalizer does on each accepted format\<close>

lemma normalizeContract_fixed:
  assumes "separator_free r" and "includes_str r ''USDT''"
  shows "normalizeContract r = r"
  using assms
  by (simp add: normalizeContract_def separator_free_def replace_first_absent)

lemma normalizeContract_bare:
  assumes "separator_free b"
  shows "normalizeContract b = (if includes_str b ''USDT'' then b else b @ ''USDT'')"
  using assms endsWith_includes [of b "''USDT''"]
  by (auto simp add: normalizeContract_def separator_free_def replace_first_absent)

lemma normalizeContract_canonical:
  assumes "separator_free b"
  shows "normalizeContract (b @ ''USDT'') = b @ ''USDT''"
  using assms
  by (intro normalizeContract_fixed)
     (simp_all add: separator_free_append separator_free_USDT includes_append_end
        del: includes_str.simps)

lemma normalizeContract_slash:
  assumes "separator_free b"
  shows "normalizeContract (b @ ''/USDT'') = b @ ''USDT''"
proof -
  have 1: "replace_first ''_'' '''' (b @ ''/USDT'') = b @ ''/USDT''"
    using assms by (simp add: separator_free_def replace_first_absent)
  have 2: "replace_first ''/'' '''' (b @ ''/USDT'') = b @ ''USDT''"
    using assms replace_first_at [of "CHR ''/''" b "[]" "''USDT''"]
    by (simp add: separator_free_def)
  have 3: "replace_first '':USDT'' '''' (b @ ''USDT'') = b @ ''USDT''"
    using assms by (simp add: separator_free_def replace_first_absent)
  show ?thesis
    by (simp add: normalizeContract_def 1 2 3 includes_append_end
          del: replace_first.simps includes_str.simps)
qed

lemma normalizeContract_settlement:
  assumes "separator_free b"
  shows "normalizeContract (b @ ''/USDT:USDT'') = b @ ''USDT''"
proof -
  have 1: "replace_first ''_'' '''' (b @ ''/USDT:USDT'') = b @ ''/USDT:USDT''"
    using assms by (simp add: separator_free_def replace_first_absent)
  have 2: "replace_first ''/'' '''' (b @ ''/USDT:USDT'') = b @ ''USDT:USDT''"
    using assms replace_first_at [of "CHR ''/''" b "[]" "''USDT:USDT''"]
    by (simp add: separator_free_def)
  have "CHR '':'' \<notin> set (b @ ''USDT'')"
    using assms by (simp add: separator_free_def)
  from replace_first_at [OF this, of "''USDT''" "[]"]
  have 3: "replace_first '':USDT'' '''' (b @ ''USDT:USDT'') = b @ ''USDT''"
    by simp
  show ?thesis
    by (simp add: normalizeContract_def 1 2 3 includes_append_end
          del: replace_first.simps includes_str.simps)
qed

lemma normalizeContract_underscore:
  assumes "separator_free b"
  shows "normalizeContract (b @ ''_USDT'') = b @ ''USDT''"
proof -
  have 1: "replace_first ''_'' '''' (b @ ''_USDT'') = b @ ''USDT''"
    using assms replace_first_at [of "CHR ''_''" b "[]" "''USDT''"]
    by (simp add: separator_free_def)
  have 2: "replace_first ''/'' '''' (b @ ''USDT'') = b @ ''USDT''"
    using assms by (simp add: separator_free_def replace_first_absent)
  have 3: "replace_first '':USDT'' '''' (b @ ''USDT'') = b @ ''USDT''"
    using assms by (simp add: separator_free_def replace_first_absent)
  show ?thesis
    by (simp add: normalizeContract_def 1 2 3 includes_append_end
          del: replace_first.simps includes_str.simps)
qed

lemma normalizeContract_render:
  assumes "separator_free b"
  shows "normalizeContract (render f b) =
           (if f = Bare \<and> includes_str b ''USDT'' then b else b @ ''USDT'')"
  using assms
  by (cases f)
     (simp_all add: normalizeContract_bare normalizeContract_slash
        normalizeContract_settlement normalizeContract_underscore
        normalizeContract_canonical del: includes_str.simps)

lemma normalizeContract_render_stable:
  assumes "separator_free b"
  shows "separator_free (normalizeContract (render f b)) \<and>
         includes_str (normalizeContract (render f b)) ''USDT''"
  using assms
  by (simp add: normalizeContract_render separator_free_append separator_free_USDT
        includes_append_end del: includes_str.simps)

lemma straddle_USDT:
  assumes "\<not> prefix ''USDT'' (c # b)"
  shows "\<not> prefix ''USDT'' (c # b @ ''USDT'')"
proof (cases b)
  case Nil
  then show ?thesis by simp
next
  case b1: (Cons d b2)
  show ?thesis
  proof (cases b2)
    case Nil
    with b1 show ?thesis by simp
  next
    case b2: (Cons e b3)
    show ?thesis
    proof (cases b3)
      case Nil
      with b1 b2 show ?thesis by simp
    next
      case (Cons g b4)
      with b1 b2 assms show ?thesis by simp
    qed
  qed
qed

lemma replace_first_USDT_suffix:
  "\<not> includes_str b ''USDT'' \<Longrightarrow> replace_first ''USDT'' '''' (b @ ''USDT'') = b"
proof (induction b)
  case Nil
  show ?case by simp
next
  case (Cons c b)
  then have np: "\<not> prefix ''USDT'' (c # b)" and ni: "\<not> includes_str b ''USDT''"
    by simp_all
  have "replace_first ''USDT'' '''' (c # (b @ ''USDT''))
          = c # replace_first ''USDT'' '''' (b @ ''USDT'')"
    using straddle_USDT [OF np] by (simp only: replace_first.simps if_False)
  with Cons.IH [OF ni] show ?case by (simp only: append_Cons)
qed

lemma extractSymbol_render:
  assumes "separator_free b" and "\<not> includes_str b ''USDT''"
  shows "extractSymbol (render f b) = b"
  using assms
  by (simp add: extractSymbol_def normalizeContract_render replace_first_USDT_suffix
        del: includes_str.simps replace_first.simps)

text \<open>
  C6: symbol normalization is idempotent on every accepted input format. For a base
  asset \<open>b\<close> without separator characters and each of the five formats (bare base,
  slash pair, settlement-suffixed pair, underscore pair, canonical form), normalizing
  the normalized symbol returns it unchanged; and the inputs BTC, BTC/USDT and BTC_USDT
  all normalize to the one canonical symbol BTCUSDT.
\<close>

theorem normalizeContract_idempotent:
  "separator_free b \<Longrightarrow>
     normalizeContract (normalizeContract (render f b)) = normalizeContract (render f b)
     \<and> normalizeContract ''BTC'' = normalizeContract ''BTC/USDT''
     \<and> normalizeContract ''BTC/USDT'' = normalizeContract ''BTC_USDT''
     \<and> normalizeContract ''BTC_USDT'' = ''BTCUSDT''"
proof -
  assume b: "separator_free b"
  have btc: "separator_free ''BTC''"
    by (simp add: separator_free_def)
  have "normalizeContract (normalizeContract (render f b)) = normalizeContract (render f b)"
    using normalizeContract_render_stable [OF b, of f]
    by (intro normalizeContract_fixed) simp_all
  moreover have "normalizeContract ''BTC'' = ''BTCUSDT''"
    using normalizeContract_render [OF btc, of Bare] by simp
  moreover have "normalizeContract ''BTC/USDT'' = ''BTCUSDT''"
    using normalizeContract_render [OF btc, of SlashPair] by simp
  moreover have "normalizeContract ''BTC_USDT'' = ''BTCUSDT''"
    using normalizeContract_render [OF btc, of UnderscorePair] by simp
  ultimately show ?thesis by simp
qed

theorem normalizeContract_idempotent_witness:
  "separator_free ''ETH'' \<and>
   normalizeContract (normalizeContract ''ETH/USDT:USDT'') = normalizeContract ''ETH/USDT:USDT''"
proof -
  have h: "separator_free ''ETH''"
    by (simp add: separator_free_def)
  from normalizeContract_idempotent [OF h, of SettlementPair] h show ?thesis
    by simp
qed

text \<open>
  C9 (as amended): extracting the base asset and normalizing it again gives the same
  canonical symbol as normalizing the input directly, for every accepted format of a
  USDT-quoted instrument whose base asset does not contain the text USDT; extractSymbol
  then returns exactly that base.
\<close>

theorem extractSymbol_roundtrip:
  "separator_free b \<Longrightarrow> \<not> includes_str b ''USDT'' \<Longrightarrow>
     normalizeContract (extractSymbol (render f b)) = normalizeContract (render f b)
     \<and> extractSymbol (render f b) = b"
proof -
  assume b: "separator_free b" and q: "\<not> includes_str b ''USDT''"
  have e: "extractSymbol (render f b) = b"
    by (rule extractSymbol_render [OF b q])
  have "normalizeContract b = b @ ''USDT''"
    using normalizeContract_bare [OF b] q by simp
  moreover have "normalizeContract (render f b) = b @ ''USDT''"
    using normalizeContract_render [OF b, of f] q by simp
  ultimately show ?thesis using e by simp
qed

theorem extractSymbol_roundtrip_witness:
  "separator_free ''BTC'' \<and> \<not> includes_str ''BTC'' ''USDT'' \<and>
   normalizeContract (extractSymbol ''BTC_USDT'') = normalizeContract ''BTC_USDT'' \<and>
   extractSymbol ''BTC_USDT'' = ''BTC''"
proof -
  have h1: "separator_free ''BTC''"
    by (simp add: separator_free_def)
  have h2: "\<not> includes_str ''BTC'' ''USDT''"
    by simp
  have r: "render UnderscorePair ''BTC'' = ''BTC_USDT''"
    by simp
  from extractSymbol_roundtrip [OF h1 h2, of UnderscorePair, unfolded r] h1 h2
  show ?thesis by blast
qed

text \<open>
  C9, against the claim as stated: the round trip fails inside the accepted formats when
  the text USDT occurs in the base. For the underscore pair AUSDT_USDT the canonical
  symbol is AUSDTUSDT; extractSymbol removes the first USDT and returns AUSDT, which
  contains USDT and normalizes to itself, not to AUSDTUSDT. The canonical form USDTUSDT
  of the base USDT loses its base in the same way.
\<close>

theorem extractSymbol_roundtrip_fails:
  "separator_free ''AUSDT''
   \<and> normalizeContract (render UnderscorePair ''AUSDT'') = ''AUSDTUSDT''
   \<and> extractSymbol (render UnderscorePair ''AUSDT'') = ''AUSDT''
   \<and> normalizeContract (extractSymbol (render UnderscorePair ''AUSDT'')) = ''AUSDT''
   \<and> normalizeContract (extractSymbol (render UnderscorePair ''AUSDT''))
       \<noteq> normalizeContract (render UnderscorePair ''AUSDT'')
   \<and> normalizeContract (render Canonical ''USDT'') = ''USDTUSDT''
   \<and> normalizeContract (extractSymbol (render Canonical ''USDT'')) = ''USDT''"
  by (simp add: separator_free_def normalizeContract_def extractSymbol_def endsWith_def
        suffix_to_prefix)

text \<open>
  Outside the accepted formats idempotence can fail: a second underscore survives the
  first normalization and is removed by the second.
\<close>

lemma normalizeContract_not_idempotent_outside:
  "normalizeContract ''A__B'' = ''A_BUSDT''
   \<and> normalizeContract (normalizeContract ''A__B'') = ''ABUSDT''"
  by (simp add: normalizeContract_def endsWith_def suffix_to_prefix)

section \<open>Properties of the clock synchronizer and of signed requests\<close>

declare handleSignedRequest_from.simps [simp del]

lemma syncServerTime_ok:
  "se_response env = Inr S \<Longrightarrow>
   syncServerTime env c =
     (Inr (), c\<lparr>timeOffset := S + (se_t1 env - se_t0 env) div 2 - se_t1 env - 2000,
               lastSyncTime := se_t2 env\<rparr>)"
  by (simp add: syncServerTime_def Let_def)

lemma syncServerTime_fails:
  "se_response env = Inl e \<Longrightarrow> syncServerTime env c = (Inl e, c)"
  by (simp add: syncServerTime_def)

text \<open>
  C5: after a successful clock synchronization that observed the server time \<open>S\<close> and the
  local times \<open>t0\<close> before and \<open>t1\<close> after the query, the stored offset is
  \<open>(S + rtt/2 - t1) - 2000\<close> with \<open>rtt = t1 - t0\<close>, the half taken in whole
  milliseconds (\<^verbatim>\<open>Math.floor\<close>) and 2000 ms the safety margin, which is always
  subtracted; getServerTime at any later local time \<open>now\<close> returns \<open>now\<close> plus that
  offset.
\<close>

theorem clock_offset_after_sync:
  "se_response env = Inr S \<Longrightarrow>
     fst (syncServerTime env c) = Inr ()
     \<and> timeOffset (snd (syncServerTime env c))
         = (S + (se_t1 env - se_t0 env) div 2 - se_t1 env) - 2000
     \<and> getServerTime now (snd (syncServerTime env c))
         = now + ((S + (se_t1 env - se_t0 env) div 2 - se_t1 env) - 2000)
     \<and> lastSyncTime (snd (syncServerTime env c)) = se_t2 env"
  by (simp add: syncServerTime_ok getServerTime_def)

theorem clock_offset_after_sync_witness:
  "se_response sample_sync = Inr 5000 \<and>
   timeOffset (snd (syncServerTime sample_sync fresh_client)) = 1949 \<and>
   getServerTime 7000 (snd (syncServerTime sample_sync fresh_client)) = 8949"
proof -
  have h: "se_response sample_sync = Inr 5000"
    by (simp add: sample_sync_def)
  from clock_offset_after_sync [OF h, of fresh_client 7000] h show ?thesis
    by (simp add: sample_sync_def)
qed

lemma attempt_ok:
  assumes "attempt \<le> retries" and "ae_fetch (env attempt) = Ok r"
  shows "handleSignedRequest_from sign env params retries attempt c sent =
           (Inr r, c,
            sent @ [\<lparr>sr_data = \<lparr>sd_params = params,
                                sd_timestamp = ae_now (env attempt) + timeOffset c,
                                sd_recvWindow = 60000\<rparr>,
                     sr_signature = sign \<lparr>sd_params = params,
                                sd_timestamp = ae_now (env attempt) + timeOffset c,
                                sd_recvWindow = 60000\<rparr>\<rparr>])"
  using assms
  by (subst handleSignedRequest_from.simps)
     (simp add: getServerTime_def defaultRecvWindow_def Let_def)

lemma attempt_drift:
  assumes "attempt < retries" and "ae_fetch (env attempt) = NotOk (- 1021) msg"
  shows "handleSignedRequest_from sign env params retries attempt c sent =
           handleSignedRequest_from sign env params retries (Suc attempt)
             (snd (syncServerTime (ae_sync (env attempt)) c))
             (sent @ [\<lparr>sr_data = \<lparr>sd_params = params,
                                sd_timestamp = ae_now (env attempt) + timeOffset c,
                                sd_recvWindow = 60000\<rparr>,
                     sr_signature = sign \<lparr>sd_params = params,
                                sd_timestamp = ae_now (env attempt) + timeOffset c,
                                sd_recvWindow = 60000\<rparr>\<rparr>])"
  using assms
  by (subst handleSignedRequest_from.simps)
     (simp add: getServerTime_def defaultRecvWindow_def Let_def)

lemma signatures_fresh:
  "\<forall>q \<in> set sent. sr_signature q = sign (sr_data q) \<Longrightarrow>
   \<forall>q \<in> set (snd (snd (handleSignedRequest_from sign env params retries attempt c sent))).
      sr_signature q = sign (sr_data q)"
proof (induction sign env params retries attempt c sent rule: handleSignedRequest_from.induct)
  case (1 sign env params retries attempt c sent)
  show ?case
    apply (subst handleSignedRequest_from.simps)
    using 1
    apply (auto simp: Let_def split: fetch_outcome.splits)
    done
qed

lemma drift_then_ok:
  assumes r: "2 \<le> retries" and e1: "ae_fetch (env 1) = NotOk (- 1021) msg"
    and e2: "ae_fetch (env 2) = Ok r"
  shows "handleSignedRequest sign env params retries c =
           (Inr r, snd (syncServerTime (ae_sync (env 1)) c),
            [\<lparr>sr_data = \<lparr>sd_params = params,
                          sd_timestamp = ae_now (env 1) + timeOffset c,
                          sd_recvWindow = 60000\<rparr>,
               sr_signature = sign \<lparr>sd_params = params,
                          sd_timestamp = ae_now (env 1) + timeOffset c,
                          sd_recvWindow = 60000\<rparr>\<rparr>,
             \<lparr>sr_data = \<lparr>sd_params = params,
                          sd_timestamp = ae_now (env 2)
                            + timeOffset (snd (syncServerTime (ae_sync (env 1)) c)),
                          sd_recvWindow = 60000\<rparr>,
               sr_signature = sign \<lparr>sd_params = params,
                          sd_timestamp = ae_now (env 2)
                            + timeOffset (snd (syncServerTime (ae_sync (env 1)) c)),
                          sd_recvWindow = 60000\<rparr>\<rparr>])"
proof -
  let ?c1 = "snd (syncServerTime (ae_sync (env 1)) c)"
  let ?d1 = "\<lparr>sd_params = params, sd_timestamp = ae_now (env 1) + timeOffset c,
              sd_recvWindow = 60000\<rparr>"
  let ?q1 = "\<lparr>sr_data = ?d1, sr_signature = sign ?d1\<rparr>"
  let ?d2 = "\<lparr>sd_params = params, sd_timestamp = ae_now (env 2) + timeOffset ?c1,
              sd_recvWindow = 60000\<rparr>"
  let ?q2 = "\<lparr>sr_data = ?d2, sr_signature = sign ?d2\<rparr>"
  from r have a1: "(1::nat) < retries" and a2: "(2::nat) \<le> retries"
    by simp_all
  have s1: "handleSignedRequest_from sign env params retries 1 c [] =
            handleSignedRequest_from sign env params retries (Suc 1) ?c1 ([] @ [?q1])"
    by (rule attempt_drift [where attempt = 1 and env = env, OF a1 e1])
  have s2: "handleSignedRequest_from sign env params retries 2 ?c1 ([] @ [?q1]) =
            (Inr r, ?c1, ([] @ [?q1]) @ [?q2])"
    by (rule attempt_ok [where attempt = 2 and env = env, OF a2 e2])
  have "Suc 1 = 2" by simp
  with s1 s2 show ?thesis
    unfolding handleSignedRequest_def by (simp del: One_nat_def)
qed

lemma attempt_stops:
  assumes "attempt \<le> retries"
    and "(\<exists>r. ae_fetch (env attempt) = Ok r) \<or> attempt = retries"
  shows "handleSignedRequest_from sign env params retries attempt cl sent =
           (outcome_of (ae_fetch (env attempt)), cl,
            sent @ [attempt_request sign params (ae_now (env attempt)) cl])"
  using assms
  by (subst handleSignedRequest_from.simps)
     (auto simp: getServerTime_def defaultRecvWindow_def Let_def attempt_request_def
        split: fetch_outcome.splits)

lemma attempt_continues:
  assumes "attempt < retries" and "\<forall>r. ae_fetch (env attempt) \<noteq> Ok r"
  shows "handleSignedRequest_from sign env params retries attempt cl sent =
           handleSignedRequest_from sign env params retries (Suc attempt)
             (after_attempt env retries attempt cl)
             (sent @ [attempt_request sign params (ae_now (env attempt)) cl])"
  using assms
  by (subst handleSignedRequest_from.simps)
     (auto simp: getServerTime_def defaultRecvWindow_def Let_def attempt_request_def
        after_attempt_def split: fetch_outcome.splits)

lemma client_at_Suc:
  "0 < k \<Longrightarrow> client_at env retries c (Suc k) = after_attempt env retries k (client_at env retries c k)"
  by (cases k) simp_all

lemma loop_from:
  assumes "0 < a" and "a \<le> retries" and "length sent = a - 1"
    and "\<forall>i<length sent. sent ! i = attempt_request sign params (ae_now (env (Suc i)))
                               (client_at env retries c (Suc i))"
    and "\<forall>k. 0 < k \<and> k < a \<longrightarrow> (\<forall>r. ae_fetch (env k) \<noteq> Ok r)"
  shows "run_ok sign env params retries c
           (handleSignedRequest_from sign env params retries a (client_at env retries c a) sent)"
  using assms
proof (induction "retries - a" arbitrary: a sent)
  case 0
  then have last: "a = retries" by simp
  let ?sent = "sent @ [attempt_request sign params (ae_now (env a)) (client_at env retries c a)]"
  have out: "handleSignedRequest_from sign env params retries a (client_at env retries c a) sent
        = (outcome_of (ae_fetch (env a)), client_at env retries c a, ?sent)"
    using last by (intro attempt_stops) simp_all
  have len: "length ?sent = a"
    using "0.prems" by simp
  have nth: "?sent ! i = attempt_request sign params (ae_now (env (Suc i)))
                               (client_at env retries c (Suc i))" if "i < a" for i
  proof (cases "i < length sent")
    case True
    then show ?thesis using "0.prems"(4) by (simp add: nth_append)
  next
    case False
    with that "0.prems"(3) have "i = length sent" "Suc i = a" by simp_all
    then show ?thesis by (simp add: nth_append)
  qed
  show ?case
    unfolding out run_ok_def Let_def using "0.prems" last nth
    by (simp only: fst_conv snd_conv len) auto
next
  case (Suc m)
  then have lt: "a < retries" by simp
  let ?cl = "client_at env retries c a"
  let ?sent = "sent @ [attempt_request sign params (ae_now (env a)) ?cl]"
  have len: "length ?sent = a"
    using Suc.prems by simp
  have nth: "?sent ! i = attempt_request sign params (ae_now (env (Suc i)))
                               (client_at env retries c (Suc i))" if "i < a" for i
  proof (cases "i < length sent")
    case True
    then show ?thesis using Suc.prems(4) by (simp add: nth_append)
  next
    case False
    with that Suc.prems(3) have "i = length sent" "Suc i = a" by simp_all
    then show ?thesis by (simp add: nth_append)
  qed
  show ?case
  proof (cases "\<exists>r. ae_fetch (env a) = Ok r")
    case True
    have out: "handleSignedRequest_from sign env params retries a ?cl sent
        = (outcome_of (ae_fetch (env a)), ?cl, ?sent)"
      using True Suc.prems(2) by (intro attempt_stops) simp_all
    show ?thesis
      unfolding out run_ok_def Let_def using Suc.prems nth True
      by (simp only: fst_conv snd_conv len) auto
  next
    case False
    then have no: "\<forall>r. ae_fetch (env a) \<noteq> Ok r" by simp
    have step: "handleSignedRequest_from sign env params retries a ?cl sent
        = handleSignedRequest_from sign env params retries (Suc a)
            (client_at env retries c (Suc a)) ?sent"
      unfolding client_at_Suc [OF Suc.prems(1)]
      by (rule attempt_continues [where attempt = a and env = env, OF lt no])
    have m: "m = retries - Suc a"
      using Suc.hyps(2) by simp
    have prev: "\<forall>k. 0 < k \<and> k < Suc a \<longrightarrow> (\<forall>r. ae_fetch (env k) \<noteq> Ok r)"
      using Suc.prems(5) no by (auto simp: less_Suc_eq)
    show ?thesis
      unfolding step
      by (rule Suc.hyps(1) [OF m]) (use lt len nth prev in auto)
  qed
qed

lemma handleSignedRequest_run:
  "0 < retries \<Longrightarrow>
   run_ok sign env params retries c (handleSignedRequest sign env params retries c)"
  unfolding handleSignedRequest_def
  using loop_from [of 1 retries "[]" sign params env c] by simp

lemma handleSignedRequest_no_attempt:
  "handleSignedRequest sign env params 0 c = (Inl (RetriesExhausted 0), c, [])"
  unfolding handleSignedRequest_def
  by (subst handleSignedRequest_from.simps) simp

lemma client_at_drift:
  "ae_fetch (env 1) = NotOk (- 1021) msg \<Longrightarrow> 2 \<le> retries \<Longrightarrow>
   client_at env retries c 2 = snd (syncServerTime (ae_sync (env 1)) c)"
  by (simp add: numeral_2_eq_2 after_attempt_def)

text \<open>
  C2 (as amended): in the signed-request retry loop the timestamp and the signature are
  computed afresh inside every attempt: request \<open>i\<close> carries the clock read in attempt
  \<open>i\<close> plus the offset the client holds on entering that attempt, with the signature of
  exactly that data; the loop makes one attempt after another until one succeeds or the
  last one fails, and resynchronizes after every attempt answered -1021 that is not the
  last. In particular, if the exchange answers attempt 1 with -1021 and attempt 2
  succeeds, the call returns the successful result, a clock resynchronization runs
  between the two attempts, and the signer is invoked exactly twice: first with the
  clock of attempt 1 plus the offset held then, second with the clock of attempt 2 plus
  the offset left by the resynchronization.
\<close>

theorem signed_retry_after_clock_drift:
  "(0 < retries \<longrightarrow>
      (let out = handleSignedRequest sign env params retries c;
           sent = snd (snd out);
           n = length sent
       in 0 < n \<and> n \<le> retries
          \<and> (\<forall>i<n. sr_data (sent ! i)
                       = \<lparr>sd_params = params,
                          sd_timestamp = ae_now (env (Suc i))
                                           + timeOffset (client_at env retries c (Suc i)),
                          sd_recvWindow = 60000\<rparr>
                     \<and> sr_signature (sent ! i) = sign (sr_data (sent ! i)))
          \<and> fst (snd out) = client_at env retries c n
          \<and> (\<forall>k. 0 < k \<and> k < n \<longrightarrow> (\<forall>r. ae_fetch (env k) \<noteq> Ok r))
          \<and> fst out = outcome_of (ae_fetch (env n))
          \<and> (n < retries \<longrightarrow> (\<exists>r. ae_fetch (env n) = Ok r))))
   \<and> (2 \<le> retries \<and> ae_fetch (env 1) = NotOk (- 1021) msg \<and> ae_fetch (env 2) = Ok r \<longrightarrow>
      (let c1 = snd (syncServerTime (ae_sync (env 1)) c);
           out = handleSignedRequest sign env params retries c
       in fst out = Inr r \<and> fst (snd out) = c1
          \<and> client_at env retries c 2 = c1
          \<and> map (sd_timestamp \<circ> sr_data) (snd (snd out))
              = [ae_now (env 1) + timeOffset c, ae_now (env 2) + timeOffset c1]
          \<and> map sr_signature (snd (snd out)) = map (sign \<circ> sr_data) (snd (snd out))
          \<and> (\<forall>S. se_response (ae_sync (env 1)) = Inr S \<longrightarrow>
                 timeOffset c1
                   = S + (se_t1 (ae_sync (env 1)) - se_t0 (ae_sync (env 1))) div 2
                       - se_t1 (ae_sync (env 1)) - 2000)))"
proof (intro conjI impI)
  assume "0 < retries"
  from handleSignedRequest_run [OF this, of sign env params c]
  show "let out = handleSignedRequest sign env params retries c;
           sent = snd (snd out);
           n = length sent
       in 0 < n \<and> n \<le> retries
          \<and> (\<forall>i<n. sr_data (sent ! i)
                       = \<lparr>sd_params = params,
                          sd_timestamp = ae_now (env (Suc i))
                                           + timeOffset (client_at env retries c (Suc i)),
                          sd_recvWindow = 60000\<rparr>
                     \<and> sr_signature (sent ! i) = sign (sr_data (sent ! i)))
          \<and> fst (snd out) = client_at env retries c n
          \<and> (\<forall>k. 0 < k \<and> k < n \<longrightarrow> (\<forall>r. ae_fetch (env k) \<noteq> Ok r))
          \<and> fst out = outcome_of (ae_fetch (env n))
          \<and> (n < retries \<longrightarrow> (\<exists>r. ae_fetch (env n) = Ok r))"
    unfolding run_ok_def Let_def by (auto simp: attempt_request_def)
next
  assume a: "2 \<le> retries \<and> ae_fetch (env 1) = NotOk (- 1021) msg \<and> ae_fetch (env 2) = Ok r"
  then have r: "2 \<le> retries" and e1: "ae_fetch (env 1) = NotOk (- 1021) msg"
    and e2: "ae_fetch (env 2) = Ok r"
    by simp_all
  show "let c1 = snd (syncServerTime (ae_sync (env 1)) c);
           out = handleSignedRequest sign env params retries c
       in fst out = Inr r \<and> fst (snd out) = c1
          \<and> client_at env retries c 2 = c1
          \<and> map (sd_timestamp \<circ> sr_data) (snd (snd out))
              = [ae_now (env 1) + timeOffset c, ae_now (env 2) + timeOffset c1]
          \<and> map sr_signature (snd (snd out)) = map (sign \<circ> sr_data) (snd (snd out))
          \<and> (\<forall>S. se_response (ae_sync (env 1)) = Inr S \<longrightarrow>
                 timeOffset c1
                   = S + (se_t1 (ae_sync (env 1)) - se_t0 (ae_sync (env 1))) div 2
                       - se_t1 (ae_sync (env 1)) - 2000)"
    by (simp add: drift_then_ok [OF r e1 e2] client_at_drift [where env = env, OF e1 r] Let_def syncServerTime_ok)
qed

theorem signed_retry_after_clock_drift_witness:
  "(0::nat) < 3
   \<and> length (snd (snd (handleSignedRequest demo_sign retry_env ''order'' 3 drift_client))) = 3
   \<and> fst (handleSignedRequest demo_sign retry_env ''order'' 3 drift_client) = Inr ''accepted''
   \<and> sd_timestamp (sr_data
         (snd (snd (handleSignedRequest demo_sign retry_env ''order'' 3 drift_client)) ! 2)) = 15000
   \<and> (2::nat) \<le> 2
   \<and> fst (handleSignedRequest demo_sign drift_env ''order'' 2 drift_client) = Inr ''accepted''
   \<and> timeOffset (fst (snd (handleSignedRequest demo_sign drift_env ''order'' 2 drift_client)))
       = - 2000"
proof -
  let ?out = "handleSignedRequest demo_sign retry_env ''order'' 3 drift_client"
  let ?n = "length (snd (snd ?out))"
  have h0: "(0::nat) < 3" and h1: "(2::nat) \<le> 2"
    by simp_all
  have f1: "\<forall>r. ae_fetch (retry_env 1) \<noteq> Ok r" and f2: "\<forall>r. ae_fetch (retry_env 2) \<noteq> Ok r"
    and f3: "ae_fetch (retry_env 3) = Ok ''accepted''" and now3: "ae_now (retry_env 3) = 17000"
    by (simp_all add: retry_env_def)
  have c3: "timeOffset (client_at retry_env 3 drift_client 3) = - 2000"
    by (simp add: numeral_3_eq_3 after_attempt_def retry_env_def syncServerTime_def Let_def)
  from signed_retry_after_clock_drift [of 3 demo_sign retry_env "''order''" drift_client]
  have gen: "0 < ?n \<and> ?n \<le> 3
      \<and> (\<forall>i<?n. sr_data (snd (snd ?out) ! i)
                   = \<lparr>sd_params = ''order'',
                      sd_timestamp = ae_now (retry_env (Suc i))
                                       + timeOffset (client_at retry_env 3 drift_client (Suc i)),
                      sd_recvWindow = 60000\<rparr>
                 \<and> sr_signature (snd (snd ?out) ! i) = demo_sign (sr_data (snd (snd ?out) ! i)))
      \<and> fst ?out = outcome_of (ae_fetch (retry_env ?n))
      \<and> (?n < 3 \<longrightarrow> (\<exists>r. ae_fetch (retry_env ?n) = Ok r))"
    unfolding Let_def using h0 by blast
  have n: "?n = 3"
  proof (rule ccontr)
    assume ne: "?n \<noteq> 3"
    from gen have b: "0 < ?n" "?n \<le> 3" and stop: "?n < 3 \<longrightarrow> (\<exists>r. ae_fetch (retry_env ?n) = Ok r)"
      by blast+
    from b ne have small: "?n = 1 \<or> ?n = 2"
      by linarith
    with stop have "\<exists>r. ae_fetch (retry_env ?n) = Ok r"
      by auto
    with small f1 f2 show False
      by metis
  qed
  from gen have res: "fst ?out = Inr ''accepted''"
    unfolding n f3 by simp
  from gen have "sr_data (snd (snd ?out) ! 2)
                   = \<lparr>sd_params = ''order'',
                      sd_timestamp = ae_now (retry_env (Suc 2))
                                       + timeOffset (client_at retry_env 3 drift_client (Suc 2)),
                      sd_recvWindow = 60000\<rparr>"
    unfolding n by simp
  then have ts: "sd_timestamp (sr_data (snd (snd ?out) ! 2)) = 15000"
    using now3 c3 by (simp add: numeral_3_eq_3)
  have d2: "ae_fetch (drift_env 1)
              = NotOk (- 1021) ''Timestamp for this request is outside of the recvWindow.''"
    and d3: "ae_fetch (drift_env 2) = Ok ''accepted''"
    by (simp_all add: drift_env_def)
  have t: "timeOffset (snd (syncServerTime (ae_sync (drift_env 1)) drift_client)) = - 2000"
    by (simp add: drift_env_def syncServerTime_def Let_def)
  from signed_retry_after_clock_drift
         [of 2 demo_sign drift_env "''order''" drift_client
             "''Timestamp for this request is outside of the recvWindow.''" "''accepted''"]
  have "fst (handleSignedRequest demo_sign drift_env ''order'' 2 drift_client) = Inr ''accepted''
        \<and> fst (snd (handleSignedRequest demo_sign drift_env ''order'' 2 drift_client))
            = snd (syncServerTime (ae_sync (drift_env 1)) drift_client)"
    unfolding Let_def using h1 d2 d3 by blast
  with t h0 h1 n res ts show ?thesis
    by simp
qed

text \<open>
  C2, against the claim as stated: the two timestamps need not differ. Attempt 1 is
  answered with -1021, attempt 2 succeeds and the call returns its result, yet the
  signer sees the same timestamp twice. The offset was 1100 ms and the first request was
  stamped 11100 at local time 10000; the resynchronization (query sent at 12000, server
  time 12300, answer at 12600) stores the offset -2000, and the second attempt at local
  time 13100 is stamped 11100 again.
\<close>

theorem signed_retry_equal_timestamps:
  "ae_fetch (drift_env 1)
     = NotOk (- 1021) ''Timestamp for this request is outside of the recvWindow.''
   \<and> ae_fetch (drift_env 2) = Ok ''accepted''
   \<and> fst (handleSignedRequest demo_sign drift_env ''order'' 2 drift_client) = Inr ''accepted''
   \<and> map (sd_timestamp \<circ> sr_data)
        (snd (snd (handleSignedRequest demo_sign drift_env ''order'' 2 drift_client)))
       = [11100, 11100]
   \<and> \<not> distinct (map (sd_timestamp \<circ> sr_data)
        (snd (snd (handleSignedRequest demo_sign drift_env ''order'' 2 drift_client))))"
proof -
  have h1: "(2::nat) \<le> 2" by simp
  have h2: "ae_fetch (drift_env 1)
              = NotOk (- 1021) ''Timestamp for this request is outside of the recvWindow.''"
    by (simp add: drift_env_def)
  have h3: "ae_fetch (drift_env 2) = Ok ''accepted''"
    by (simp add: drift_env_def)
  have t1: "ae_now (drift_env 1) + timeOffset drift_client = 11100"
    by (simp add: drift_env_def drift_client_def)
  have t2: "ae_now (drift_env 2)
              + timeOffset (snd (syncServerTime (ae_sync (drift_env 1)) drift_client)) = 11100"
    by (simp add: drift_env_def drift_client_def syncServerTime_def Let_def)
  show ?thesis
    by (simp add: drift_then_ok [OF h1 h2 h3] h2 h3 t1 t2 del: One_nat_def)
qed

section \<open>Properties of the sweep\<close>

lemma fold_cache_delete:
  "fold cache_delete ks m = filter (\<lambda>e. fst e \<notin> set ks) m"
proof (induction ks arbitrary: m)
  case Nil
  show ?case by simp
next
  case (Cons k ks)
  have "cache_delete k m = filter (\<lambda>e. fst e \<noteq> k) m"
    unfolding cache_delete_def by (rule filter_cong) auto
  with Cons show ?case
    by (auto intro: filter_cong)
qed

lemma delete_listed_entries:
  assumes d: "distinct (map fst m)" and sub: "set del \<subseteq> set m"
  shows "fold cache_delete (map fst del) m = filter (\<lambda>e. e \<notin> set del) m"
proof -
  have "fst e \<notin> set (map fst del) \<longleftrightarrow> e \<notin> set del" if e: "e \<in> set m" for e
  proof
    assume "fst e \<notin> set (map fst del)"
    then show "e \<notin> set del" by force
  next
    assume n: "e \<notin> set del"
    show "fst e \<notin> set (map fst del)"
    proof
      assume "fst e \<in> set (map fst del)"
      then obtain e' where e': "e' \<in> set del" and k: "fst e' = fst e"
        by auto
      from e' sub have "e' \<in> set m" by blast
      with d e k have "e' = e"
        by (metis eq_key_imp_eq_value prod.collapse)
      with e' n show False by simp
    qed
  qed
  then show ?thesis
    unfolding fold_cache_delete by (intro filter_cong) auto
qed

lemma sweep_expired:
  assumes "distinct (map fst cache)"
  shows "fold cache_delete (map fst (filter (expired now) cache)) cache
           = filter (\<lambda>e. \<not> expired now e) cache"
proof -
  have "fold cache_delete (map fst (filter (expired now) cache)) cache
          = filter (\<lambda>e. e \<notin> set (filter (expired now) cache)) cache"
    using assms by (intro delete_listed_entries) auto
  also have "\<dots> = filter (\<lambda>e. \<not> expired now e) cache"
    by (intro filter_cong) auto
  finally show ?thesis .
qed

lemma distinct_keys_filter:
  "distinct (map fst m) \<Longrightarrow> distinct (map fst (filter P m))"
  by (simp add: distinct_map_filter)

lemma evict_oldest:
  assumes d: "distinct (map fst m)"
  defines "sorted_entries \<equiv> sort_key (\<lambda>e. timestamp (snd e)) m"
  shows "mset (fold cache_delete (map fst (take n sorted_entries)) m)
           = mset (drop n sorted_entries)"
proof -
  from d have dm: "distinct m"
    by (simp add: distinct_map)
  then have ds: "distinct sorted_entries"
    by (simp add: sorted_entries_def)
  have sub: "set (take n sorted_entries) \<subseteq> set m"
    using set_take_subset [of n sorted_entries] by (simp add: sorted_entries_def)
  have "mset (fold cache_delete (map fst (take n sorted_entries)) m)
          = filter_mset (\<lambda>e. e \<notin> set (take n sorted_entries)) (mset m)"
    by (simp add: delete_listed_entries [OF d sub])
  also have "mset m = mset (take n sorted_entries @ drop n sorted_entries)"
    by (simp add: sorted_entries_def)
  also have "filter_mset (\<lambda>e. e \<notin> set (take n sorted_entries)) \<dots>
               = mset (drop n sorted_entries)"
  proof -
    from ds have "distinct (take n sorted_entries @ drop n sorted_entries)" by simp
    then have dis: "set (take n sorted_entries) \<inter> set (drop n sorted_entries) = {}"
      by (simp only: distinct_append)
    have 1: "filter (\<lambda>e. e \<notin> set (take n sorted_entries)) (take n sorted_entries) = []"
      by (simp add: filter_empty_conv)
    have 2: "filter (\<lambda>e. e \<notin> set (take n sorted_entries)) (drop n sorted_entries)
               = drop n sorted_entries"
      using dis by (auto simp add: filter_id_conv)
    show ?thesis
      by (simp only: mset_filter [symmetric] filter_append 1 2 append_Nil)
  qed
  finally show ?thesis .
qed

lemma oldest_first:
  assumes "e \<in> set (take n (sort_key f xs))" and "k \<in> set (drop n (sort_key f xs))"
  shows "f e \<le> f k"
proof -
  have "sorted (map f (take n (sort_key f xs) @ drop n (sort_key f xs)))"
    by simp
  then show ?thesis
    using assms unfolding map_append sorted_append by auto
qed

lemma cleanupCache_within_capacity:
  assumes "distinct (map fst cache)"
    and "length (filter (\<lambda>e. \<not> expired now e) cache) \<le> MAX_CACHE_SIZE"
  shows "cleanupCache now cache = filter (\<lambda>e. \<not> expired now e) cache"
  using assms by (simp add: cleanupCache_def sweep_expired Let_def)

lemma cleanupCache_over_capacity:
  assumes d: "distinct (map fst cache)"
    and over: "length (filter (\<lambda>e. \<not> expired now e) cache) > MAX_CACHE_SIZE"
  defines "live \<equiv> filter (\<lambda>e. \<not> expired now e) cache"
  defines "entries \<equiv> sort_key (\<lambda>e. timestamp (snd e)) live"
  shows "cleanupCache now cache
           = filter (\<lambda>e. e \<notin> set (take (length live - MAX_CACHE_SIZE) entries)) live"
    and "mset (cleanupCache now cache) = mset (drop (length live - MAX_CACHE_SIZE) entries)"
proof -
  have dl: "distinct (map fst live)"
    unfolding live_def using d by (rule distinct_keys_filter)
  have c: "cleanupCache now cache
             = fold cache_delete (map fst (take (length live - MAX_CACHE_SIZE) entries)) live"
    using over by (simp add: cleanupCache_def sweep_expired [OF d] Let_def live_def entries_def)
  have sub: "set (take (length live - MAX_CACHE_SIZE) entries) \<subseteq> set live"
    using set_take_subset [of "length live - MAX_CACHE_SIZE" entries]
    by (simp add: entries_def)
  show "cleanupCache now cache
          = filter (\<lambda>e. e \<notin> set (take (length live - MAX_CACHE_SIZE) entries)) live"
    unfolding c by (rule delete_listed_entries [OF dl sub])
  show "mset (cleanupCache now cache) = mset (drop (length live - MAX_CACHE_SIZE) entries)"
    unfolding c entries_def by (rule evict_oldest [OF dl])
qed

lemma cleanupCache_evicts_oldest:
  assumes d: "distinct (map fst cache)"
    and over: "length (filter (\<lambda>e. \<not> expired now e) cache) > MAX_CACHE_SIZE"
  defines "live \<equiv> filter (\<lambda>e. \<not> expired now e) cache"
  shows "length (cleanupCache now cache) = MAX_CACHE_SIZE"
    and "set (cleanupCache now cache) \<subseteq> set live"
    and "\<forall>e \<in> set live - set (cleanupCache now cache). \<forall>k \<in> set (cleanupCache now cache).
            timestamp (snd e) \<le> timestamp (snd k)"
    and "card (set live - set (cleanupCache now cache)) = length live - MAX_CACHE_SIZE"
proof -
  define n where "n = length live - MAX_CACHE_SIZE"
  define entries where "entries = sort_key (\<lambda>e. timestamp (snd e)) live"
  have m: "mset (cleanupCache now cache) = mset (drop n entries)"
    using cleanupCache_over_capacity(2) [OF d over]
    by (simp add: n_def entries_def live_def)
  have f: "cleanupCache now cache = filter (\<lambda>e. e \<notin> set (take n entries)) live"
    using cleanupCache_over_capacity(1) [OF d over]
    by (simp add: n_def entries_def live_def)
  from m have "length (cleanupCache now cache) = length (drop n entries)"
    by (metis size_mset)
  also have "\<dots> = MAX_CACHE_SIZE"
    using over by (simp add: n_def entries_def live_def)
  finally show "length (cleanupCache now cache) = MAX_CACHE_SIZE" .
  show "set (cleanupCache now cache) \<subseteq> set live"
    unfolding f by auto
  from m have sr: "set (cleanupCache now cache) = set (drop n entries)"
    by (metis set_mset_mset)
  have sl: "set live = set (take n entries) \<union> set (drop n entries)"
    using set_append [of "take n entries" "drop n entries"] by (simp add: entries_def)
  show "\<forall>e \<in> set live - set (cleanupCache now cache). \<forall>k \<in> set (cleanupCache now cache).
            timestamp (snd e) \<le> timestamp (snd k)"
    unfolding sr sl entries_def
    by (auto intro: oldest_first [where f = "\<lambda>e. timestamp (snd e)"])
  have "distinct live"
    using distinct_keys_filter [OF d, of "\<lambda>e. \<not> expired now e"]
    by (simp add: distinct_map live_def)
  then have de: "distinct entries"
    by (simp add: entries_def)
  then have "distinct (take n entries @ drop n entries)" by simp
  then have "set (take n entries) \<inter> set (drop n entries) = {}"
    by (simp only: distinct_append)
  then have "set live - set (cleanupCache now cache) = set (take n entries)"
    unfolding sr sl by auto
  moreover have "card (set (take n entries)) = length (take n entries)"
    using de by (intro distinct_card) simp
  moreover have "length (take n entries) = n"
    by (simp add: n_def entries_def)
  ultimately show "card (set live - set (cleanupCache now cache)) = length live - MAX_CACHE_SIZE"
    by (simp add: n_def)
qed

lemma all_fresh_live:
  "(\<forall>e \<in> set cache. \<not> expired now e) \<Longrightarrow> filter (\<lambda>e. \<not> expired now e) cache = cache"
  by (simp add: filter_id_conv)

text \<open>
  C3: the sweep first removes every entry whose age exceeds CACHE_TTL; if more than
  MAX_CACHE_SIZE entries are left, it evicts exactly the oldest of them by timestamp
  until MAX_CACHE_SIZE remain: every evicted entry is at most as recent as every entry
  kept. So a cache holding MAX_CACHE_SIZE + 5 fresh entries is swept down to exactly
  MAX_CACHE_SIZE entries, and the 5 entries evicted are the oldest by timestamp. The
  cache is a \<^verbatim>\<open>Map\<close>: its keys are distinct.
\<close>

theorem cleanupCache_policy:
  "distinct (map fst cache) \<Longrightarrow>
   (let live = filter (\<lambda>e. \<not> expired now e) cache;
        swept = cleanupCache now cache
    in set swept \<subseteq> set live
       \<and> (\<forall>e \<in> set swept. now - timestamp (snd e) \<le> CACHE_TTL)
       \<and> (length live \<le> MAX_CACHE_SIZE \<longrightarrow> swept = live)
       \<and> (length live > MAX_CACHE_SIZE \<longrightarrow>
            length swept = MAX_CACHE_SIZE
            \<and> card (set live - set swept) = length live - MAX_CACHE_SIZE
            \<and> (\<forall>e \<in> set live - set swept. \<forall>k \<in> set swept.
                  timestamp (snd e) \<le> timestamp (snd k)))
       \<and> (length cache = MAX_CACHE_SIZE + 5 \<and> (\<forall>e \<in> set cache. \<not> expired now e) \<longrightarrow>
            length swept = MAX_CACHE_SIZE
            \<and> card (set cache - set swept) = 5
            \<and> (\<forall>e \<in> set cache - set swept. \<forall>k \<in> set swept.
                  timestamp (snd e) \<le> timestamp (snd k))))"
proof -
  assume d: "distinct (map fst cache)"
  define live where "live = filter (\<lambda>e. \<not> expired now e) cache"
  define swept where "swept = cleanupCache now cache"
  have sub: "set swept \<subseteq> set live"
  proof (cases "length live \<le> MAX_CACHE_SIZE")
    case True
    then show ?thesis
      using cleanupCache_within_capacity [OF d, of now] by (simp add: live_def swept_def)
  next
    case False
    then show ?thesis
      using cleanupCache_evicts_oldest(2) [OF d, of now] by (simp add: live_def swept_def)
  qed
  then have ttl: "\<forall>e \<in> set swept. now - timestamp (snd e) \<le> CACHE_TTL"
    by (auto simp: live_def expired_def)
  have small: "length live \<le> MAX_CACHE_SIZE \<longrightarrow> swept = live"
    using cleanupCache_within_capacity [OF d, of now] by (simp add: live_def swept_def)
  have large: "length live > MAX_CACHE_SIZE \<longrightarrow>
            length swept = MAX_CACHE_SIZE
            \<and> card (set live - set swept) = length live - MAX_CACHE_SIZE
            \<and> (\<forall>e \<in> set live - set swept. \<forall>k \<in> set swept.
                  timestamp (snd e) \<le> timestamp (snd k))"
    using cleanupCache_evicts_oldest [OF d, of now] by (simp add: live_def swept_def)
  have five: "length cache = MAX_CACHE_SIZE + 5 \<and> (\<forall>e \<in> set cache. \<not> expired now e) \<longrightarrow>
            length swept = MAX_CACHE_SIZE
            \<and> card (set cache - set swept) = 5
            \<and> (\<forall>e \<in> set cache - set swept. \<forall>k \<in> set swept.
                  timestamp (snd e) \<le> timestamp (snd k))"
  proof
    assume a: "length cache = MAX_CACHE_SIZE + 5 \<and> (\<forall>e \<in> set cache. \<not> expired now e)"
    then have l: "live = cache"
      unfolding live_def by (intro all_fresh_live) simp
    with a have "length live > MAX_CACHE_SIZE" and "length live - MAX_CACHE_SIZE = 5"
      by simp_all
    with large show "length swept = MAX_CACHE_SIZE
            \<and> card (set cache - set swept) = 5
            \<and> (\<forall>e \<in> set cache - set swept. \<forall>k \<in> set swept.
                  timestamp (snd e) \<le> timestamp (snd k))"
      unfolding l by simp
  qed
  from sub ttl small large five show ?thesis
    unfolding Let_def live_def [symmetric] swept_def [symmetric] by blast
qed

lemma numbered_keys_distinct: "distinct (map fst (numbered_cache n))"
proof -
  have "inj_on (\<lambda>i. replicate (Suc i) CHR ''7'') (set [0..<n])"
    by (rule inj_onI) (metis length_replicate nat.inject)
  then show ?thesis
    by (simp add: numbered_cache_def numbered_entry_def distinct_map comp_def)
qed

lemma numbered_length: "length (numbered_cache n) = n"
  by (simp add: numbered_cache_def)

lemma numbered_fresh:
  "int n \<le> now \<Longrightarrow> now \<le> CACHE_TTL \<Longrightarrow> \<forall>e \<in> set (numbered_cache n). \<not> expired now e"
  by (auto simp: numbered_cache_def numbered_entry_def expired_def)

lemma numbered_sorted:
  "sort_key (\<lambda>e. timestamp (snd e)) (numbered_cache n) = numbered_cache n"
proof -
  have "map (\<lambda>e. timestamp (snd e)) (numbered_cache n) = map int [0..<n]"
    by (simp add: numbered_cache_def numbered_entry_def comp_def)
  moreover have "sorted (map int [0..<n])"
    by (simp add: sorted_map)
  ultimately show ?thesis
    by (intro sort_key_id_if_sorted) simp
qed

lemma numbered_sweep_general:
  assumes over: "MAX_CACHE_SIZE < n" and now: "int n \<le> now" "now \<le> CACHE_TTL"
  shows "cleanupCache now (numbered_cache n) = map numbered_entry [n - MAX_CACHE_SIZE..<n]"
proof -
  define k where "k = n - MAX_CACHE_SIZE"
  have d: "distinct (map fst (numbered_cache n))"
    by (rule numbered_keys_distinct)
  have live: "filter (\<lambda>e. \<not> expired now e) (numbered_cache n) = numbered_cache n"
    using numbered_fresh [OF now] by (rule all_fresh_live)
  have big: "length (filter (\<lambda>e. \<not> expired now e) (numbered_cache n)) > MAX_CACHE_SIZE"
    unfolding live using over by (simp add: numbered_length)
  have tk: "take (length (numbered_cache n) - MAX_CACHE_SIZE) (numbered_cache n)
              = map numbered_entry [0..<k]"
    by (simp add: numbered_cache_def take_map k_def)
  have inj: "inj numbered_entry"
    by (rule injI) (simp add: numbered_entry_def)
  have "cleanupCache now (numbered_cache n)
          = filter (\<lambda>e. e \<notin> set (map numbered_entry [0..<k])) (numbered_cache n)"
    using cleanupCache_over_capacity(1) [OF d big] by (simp only: live numbered_sorted tk)
  also have "\<dots> = map numbered_entry (filter (\<lambda>i. i \<notin> set [0..<k]) [0..<n])"
    using inj by (simp add: numbered_cache_def filter_map comp_def inj_image_mem_iff)
  also have "[0..<n] = [0..<k] @ [k..<n]"
    using upt_add_eq_append [of 0 k "n - k"] by (simp add: k_def)
  also have "filter (\<lambda>i. i \<notin> set [0..<k]) ([0..<k] @ [k..<n]) = [k..<n]"
    by (simp add: filter_empty_conv filter_id_conv)
  finally show ?thesis
    by (simp only: k_def)
qed

theorem cleanupCache_policy_witness:
  "distinct (map fst (numbered_cache 1005))
   \<and> length (cleanupCache 2000 (numbered_cache 1005)) = 1000
   \<and> card (set (numbered_cache 1005) - set (cleanupCache 2000 (numbered_cache 1005))) = 5"
proof -
  have h: "distinct (map fst (numbered_cache 1005))"
    by (rule numbered_keys_distinct)
  have len: "length (numbered_cache 1005) = MAX_CACHE_SIZE + 5"
    by (simp add: numbered_length MAX_CACHE_SIZE_def)
  have fresh: "\<forall>e \<in> set (numbered_cache 1005). \<not> expired 2000 e"
    by (rule numbered_fresh) (simp_all add: CACHE_TTL_def)
  from cleanupCache_policy [OF h, of 2000] len fresh
  have "length (cleanupCache 2000 (numbered_cache 1005)) = MAX_CACHE_SIZE
        \<and> card (set (numbered_cache 1005) - set (cleanupCache 2000 (numbered_cache 1005))) = 5"
    unfolding Let_def by blast
  with h show ?thesis
    by (simp add: MAX_CACHE_SIZE_def)
qed

text \<open>In that cache of 1005 entries stamped 0 to 1004 the sweep evicts the entries 0 to 4.\<close>

lemma numbered_sweep:
  "cleanupCache 2000 (numbered_cache 1005) = map numbered_entry [5..<1005]"
proof -
  have e: "1005 - MAX_CACHE_SIZE = 5"
    by (simp add: MAX_CACHE_SIZE_def)
  have "cleanupCache 2000 (numbered_cache 1005)
          = map numbered_entry [1005 - MAX_CACHE_SIZE..<1005]"
    by (rule numbered_sweep_general) (simp_all add: MAX_CACHE_SIZE_def CACHE_TTL_def)
  then show ?thesis
    unfolding e .
qed

lemma cache_set_keys:
  "map fst (cache_set k v m)
     = (if k \<in> set (map fst m) then map fst m else map fst m @ [k])"
proof -
  have "map fst (map (\<lambda>(k', v'). if k' = k then (k', v) else (k', v')) m) = map fst m"
    by (induction m) auto
  then show ?thesis
    by (simp add: cache_set_def del: map_map)
qed

lemma cache_set_distinct:
  "distinct (map fst m) \<Longrightarrow> distinct (map fst (cache_set k v m))"
  by (simp add: cache_set_keys del: set_map)

lemma cleanupCache_is_filter: "\<exists>P. cleanupCache now cache = filter P cache"
  unfolding cleanupCache_def Let_def fold_cache_delete filter_filter
  by (simp split: if_split) blast

lemma cleanupCache_bounded:
  assumes "distinct (map fst cache)"
  shows "length (cleanupCache now cache) \<le> MAX_CACHE_SIZE"
    and "distinct (map fst (cleanupCache now cache))"
proof -
  show "length (cleanupCache now cache) \<le> MAX_CACHE_SIZE"
  proof (cases "length (filter (\<lambda>e. \<not> expired now e) cache) \<le> MAX_CACHE_SIZE")
    case True
    then show ?thesis
      by (simp add: cleanupCache_within_capacity [OF assms])
  next
    case False
    then show ?thesis
      using cleanupCache_evicts_oldest(1) [OF assms, of now] by simp
  qed
  from cleanupCache_is_filter obtain P where "cleanupCache now cache = filter P cache"
    by blast
  then show "distinct (map fst (cleanupCache now cache))"
    using assms by (simp add: distinct_keys_filter)
qed

text \<open>
  The cache invariant: every successful placeOrder leaves at most MAX_CACHE_SIZE
  entries, with distinct keys.
\<close>

lemma placeOrder_cache_bounded:
  assumes "distinct (map fst (orderCache c))"
  shows "distinct (map fst (orderCache (snd (placeOrder env params c))))"
    and "fst (placeOrder env params c) = Inr r \<Longrightarrow>
         length (orderCache (snd (placeOrder env params c))) \<le> MAX_CACHE_SIZE"
  using assms
  by (auto simp: placeOrder_def Let_def cleanupCache_bounded cache_set_distinct
        split: sum.splits)

section \<open>Properties of getOrder\<close>

lemma find_open_order_None:
  "orderId \<notin> set (map ro_orderId orders) \<Longrightarrow>
   find (\<lambda>x. or_id x = orderId) (map open_order orders) = None"
  by (auto simp: find_None_iff open_order_def)

lemma getOrder_rethrows:
  "cache_get (orderCache c) orderId = None \<Longrightarrow> ge_openOrders env = Inl e \<Longrightarrow>
   getOrder env orderId c = (Inl e, c)"
  by (simp add: getOrder_def getOpenOrders_def)

text \<open>
  C7: for an order identifier found neither in the order cache nor among the open orders
  the exchange lists, getOrder does not raise: it returns the assume-finished result,
  whose status is finished, and leaves the client as it was. (No direct query is made
  for an identifier that is not cached: the query needs the cached contract.)
\<close>

theorem getOrder_assume_finished:
  "cache_get (orderCache c) orderId = None \<Longrightarrow> ge_openOrders env = Inr orders \<Longrightarrow>
   orderId \<notin> set (map ro_orderId orders) \<Longrightarrow>
     getOrder env orderId c = (Inr (assumed_finished orderId (ge_now env)), c)
     \<and> or_status (assumed_finished orderId (ge_now env)) = ''finished''
     \<and> or_id (assumed_finished orderId (ge_now env)) = orderId"
  by (simp add: getOrder_def getOpenOrders_def find_open_order_None assumed_finished_def)

theorem getOrder_assume_finished_witness:
  "cache_get (orderCache fresh_client) ''8'' = None
   \<and> ge_openOrders miss_env = Inr [other_order]
   \<and> ''8'' \<notin> set (map ro_orderId [other_order])
   \<and> fst (getOrder miss_env ''8'' fresh_client) = Inr (assumed_finished ''8'' 1000)"
proof -
  have h1: "cache_get (orderCache fresh_client) ''8'' = None"
    by (simp add: fresh_client_def cache_get_def)
  have h2: "ge_openOrders miss_env = Inr [other_order]"
    by (simp add: miss_env_def)
  have h3: "''8'' \<notin> set (map ro_orderId [other_order])"
    by (simp add: other_order_def)
  have n: "ge_now miss_env = 1000"
    by (simp add: miss_env_def)
  from getOrder_assume_finished [OF h1 h2 h3] h1 h2 h3 n show ?thesis
    by simp
qed

lemma cleanupCache_subset_unexpired:
  "set (cleanupCache now cache) \<subseteq> {e \<in> set cache. fst e \<notin> fst ` {x \<in> set cache. expired now x}}"
  by (auto simp: cleanupCache_def Let_def fold_cache_delete)

lemma cleanupCache_no_expired:
  "e \<in> set (cleanupCache now cache) \<Longrightarrow> \<not> expired now e"
  using cleanupCache_subset_unexpired [of now cache] by auto

lemma cleanupCache_key_gone:
  assumes "cache_get cache k = Some e" and "now - timestamp e > CACHE_TTL"
  shows "cache_get (cleanupCache now cache) k = None"
proof -
  from assms(1) have "(k, e) \<in> set cache"
    by (simp add: cache_get_def map_of_SomeD)
  with assms(2) have kin: "k \<in> fst ` {x \<in> set cache. expired now x}"
    by (force simp: expired_def)
  have "k \<notin> fst ` set (cleanupCache now cache)"
  proof
    assume "k \<in> fst ` set (cleanupCache now cache)"
    then obtain x where x: "x \<in> set (cleanupCache now cache)" and fx: "fst x = k"
      by auto
    from x cleanupCache_subset_unexpired [of now cache]
    have "fst x \<notin> fst ` {x \<in> set cache. expired now x}"
      by blast
    with kin fx show False by simp
  qed
  then show ?thesis
    by (simp add: cache_get_def map_of_eq_None_iff)
qed

lemma getOrder_uncached:
  "cache_get (orderCache c) k = None \<Longrightarrow>
   fst (getOrder env k c) = fst (getOrder env k (c\<lparr>orderCache := []\<rparr>))"
  by (simp add: getOrder_def cache_get_def split: sum.splits option.splits)

text \<open>
  C4 (as amended): the sweep drops every entry whose age exceeds CACHE_TTL, whatever the
  size of the cache: after cleanupCache the lookup finds no such entry, getOrder treats
  the identifier of a dropped entry as not cached, and the cache left by a successful
  placeOrder (which ends with the sweep) holds no entry older than CACHE_TTL at the
  sweep's clock. getOrder itself does not look at the age of the entry it reads.
\<close>

theorem sweep_drops_expired:
  "cache_get cache k = Some e \<Longrightarrow> now - timestamp e > CACHE_TTL \<Longrightarrow>
     cache_get (cleanupCache now cache) k = None
     \<and> (\<forall>k' e'. cache_get (cleanupCache now cache) k' = Some e' \<longrightarrow>
            now - timestamp e' \<le> CACHE_TTL)
     \<and> fst (getOrder env k (c\<lparr>orderCache := cleanupCache now cache\<rparr>))
         = fst (getOrder env k (c\<lparr>orderCache := []\<rparr>))
     \<and> (\<forall>penv params response k' e'.
            fst (placeOrder penv params c) = Inr response \<longrightarrow>
            cache_get (orderCache (snd (placeOrder penv params c))) k' = Some e' \<longrightarrow>
            pe_now_sweep penv - timestamp e' \<le> CACHE_TTL)"
proof -
  assume a: "cache_get cache k = Some e" "now - timestamp e > CACHE_TTL"
  have gone: "cache_get (cleanupCache now cache) k = None"
    using a by (rule cleanupCache_key_gone)
  have fresh: "t - timestamp e' \<le> CACHE_TTL"
    if "cache_get (cleanupCache t m) k' = Some e'" for t m k' e'
  proof -
    from that have "(k', e') \<in> set (cleanupCache t m)"
      by (simp add: cache_get_def map_of_SomeD)
    from cleanupCache_no_expired [OF this] show ?thesis
      by (simp add: expired_def)
  qed
  have uncached: "fst (getOrder env k (c\<lparr>orderCache := cleanupCache now cache\<rparr>))
         = fst (getOrder env k (c\<lparr>orderCache := []\<rparr>))"
    using getOrder_uncached [of "c\<lparr>orderCache := cleanupCache now cache\<rparr>" k env] gone
    by simp
  have placed: "pe_now_sweep penv - timestamp e' \<le> CACHE_TTL"
    if "fst (placeOrder penv params c) = Inr response"
      and "cache_get (orderCache (snd (placeOrder penv params c))) k' = Some e'"
    for penv params response k' e'
    using that fresh by (auto simp: placeOrder_def Let_def split: sum.splits)
  from gone fresh uncached placed show ?thesis
    by blast
qed

theorem sweep_drops_expired_witness:
  "cache_get (orderCache stale_client) ''42'' = Some stale_entry
   \<and> 86400001 - timestamp stale_entry > CACHE_TTL
   \<and> cache_get (cleanupCache 86400001 (orderCache stale_client)) ''42'' = None"
proof -
  have h1: "cache_get (orderCache stale_client) ''42'' = Some stale_entry"
    by (simp add: stale_client_def cache_get_def)
  have h2: "86400001 - timestamp stale_entry > CACHE_TTL"
    by (simp add: stale_entry_def CACHE_TTL_def)
  from sweep_drops_expired [OF h1 h2] h1 h2 show ?thesis
    by blast
qed

text \<open>
  C4, against the claim as stated: between sweeps the lookup path serves an entry older
  than CACHE_TTL. The cache holds one entry stamped 0, well within capacity; at local
  time 86400001 the entry is one millisecond past its 24 hours, the direct query fails,
  and getOrder returns the cached order.
\<close>

theorem getOrder_serves_expired:
  "cache_get (orderCache stale_client) ''42'' = Some stale_entry
   \<and> expired (ge_now stale_env) (''42'', stale_entry)
   \<and> length (orderCache stale_client) \<le> MAX_CACHE_SIZE
   \<and> fst (getOrder stale_env ''42'' stale_client) = Inr (orderInfo stale_entry)"
  by (simp add: stale_client_def stale_env_def stale_entry_def cache_get_def expired_def
        CACHE_TTL_def MAX_CACHE_SIZE_def getOrder_def)

section \<open>Properties of parsePositionSize and isValidPosition\<close>






section \<open>Properties of the precision normalizer\<close>

subsection \<open>Rounding to the nearest double\<close>



lemma rhe_of_int [simp]: "round_half_even (real_of_int n) = n"
  by (simp add: round_half_even_def)

















lemma exponent_subnormal:
  assumes "x \<noteq> 0" and "\<bar>x\<bar> < 2 powr real_of_int (- 1022)"
  shows "exponent x = - 1022"
proof -
  have pos: "0 < \<bar>x\<bar>"
    using assms(1) by simp
  have "2 powr log 2 \<bar>x\<bar> < 2 powr real_of_int (- 1022)"
    using assms pos by simp
  then have "log 2 \<bar>x\<bar> < real_of_int (- 1022)"
    by (simp only: powr_less_cancel_iff)
  then have "\<lfloor>log 2 \<bar>x\<bar>\<rfloor> < - 1022"
    by linarith
  then show ?thesis
    by (simp add: exponent_def)
qed




subsection \<open>The floor step\<close>









text \<open>\<^verbatim>\<open>1 / -0\<close> is \<^verbatim>\<open>-Infinity\<close>.\<close>

lemma js_div_negative_zero: "js_div (Num 1) (Zero Negative) = Infinity Negative \<and> js_div (Num 1) (Zero Positive) = Infinity Positive"
  by (simp add: sign_mult_def sign_of_def)



section \<open>Properties of concurrent calls of ensureTimeSynced\<close>

lemma call_while_in_flight:
  assumes "syncPromise (sys_client s) = Some p"
  shows "sys_syncs (step (Call i now t0) s) = sys_syncs s"
    and "sys_client (step (Call i now t0) s) = sys_client s"
    and "sys_callers (step (Call i now t0) s) j \<in> {sys_callers s j, AwaitingShared p}"
  using assms by simp_all

lemma calls_while_in_flight:
  assumes "list_all is_call evs" and "syncPromise (sys_client s) = Some p"
  shows "sys_syncs (run_events evs s) = sys_syncs s
         \<and> sys_client (run_events evs s) = sys_client s
         \<and> sys_callers (run_events evs s) j \<in> {sys_callers s j, AwaitingShared p}"
  using assms
proof (induction evs arbitrary: s)
  case Nil
  then show ?case by (simp add: run_events_def)
next
  case (Cons ev evs)
  from Cons.prems(1) obtain i now t0 where ev: "ev = Call i now t0"
    by (cases ev) simp_all
  let ?s1 = "step ev s"
  have c1: "syncPromise (sys_client ?s1) = Some p"
    unfolding ev using call_while_in_flight(2) [OF Cons.prems(2)] Cons.prems(2) by simp
  from Cons.prems(1) have "list_all is_call evs"
    by simp
  from Cons.IH [OF this c1]
  have ih: "sys_syncs (run_events evs ?s1) = sys_syncs ?s1"
    "sys_client (run_events evs ?s1) = sys_client ?s1"
    "sys_callers (run_events evs ?s1) j \<in> {sys_callers ?s1 j, AwaitingShared p}"
    by simp_all
  have r: "run_events (ev # evs) s = run_events evs ?s1"
    by (simp add: run_events_def)
  note st = call_while_in_flight [OF Cons.prems(2), where i = i and now = now and ?t0.0 = t0]
  show ?case
    unfolding r using ih st(1,2) st(3) [of j]
    unfolding ev by auto
qed

lemma initial_sync_shared:
  "list_all is_call evs \<Longrightarrow> round_trips (run_events evs (constructed t0)) = 1"
  using calls_while_in_flight [of evs "constructed t0" 0]
  by (simp add: round_trips_def constructed_def)

text \<open>
  C8, the resynchronization after the interval: the first synchronization is shared
  (caller 0 awaits the constructor's promise and clears it), but two callers that enter
  ensureTimeSynced after the interval has elapsed, the second before the first one's
  time query is answered, each start a synchronization of their own: three time queries
  in all, where sharing would give two.
\<close>

theorem resync_not_shared:
  "round_trips (run_events resync_race (constructed 0)) = 3
   \<and> sys_callers (run_events resync_race (constructed 0)) 0 = Returned
   \<and> sys_callers (run_events resync_race (constructed 0)) 1 = AwaitingOwn 1
   \<and> sys_callers (run_events resync_race (constructed 0)) 2 = AwaitingOwn 2
   \<and> syncPromise (sys_client (run_events resync_race (constructed 0))) = None"
  by (simp add: resync_race_def run_events_def round_trips_def constructed_def
        syncServerTime_def Let_def)

end
